theory Spec2Isabelle
  imports Main "HOL-Library.Word" "HOL-Library.Log_Nat" "HOL-Library.Multiset" "HOL-Library.Sublist"
begin

section \<open>bench.h: configuration constants and the store\<close>

text \<open>
  A shallow embedding of \<^verbatim>\<open>bench.h\<close>. Text is a list of bytes (\<^typ>\<open>string\<close>), so a UTF-8
  glyph of the source is the list of its bytes. \<^verbatim>\<open>long long\<close> is a 64-bit word read as two's
  complement (\<^const>\<open>sint\<close>), arithmetic on it wraps around.
\<close>

definition MAX_FUNS_TO_BENCH :: nat where
  "MAX_FUNS_TO_BENCH = 600"

definition MAX_FUNS_NAME_LENGTH :: nat where
  "MAX_FUNS_NAME_LENGTH = 100"

definition BAR_LENGTH :: int where
  "BAR_LENGTH = 20"

definition STRING_LENGTH :: nat where
  "STRING_LENGTH = 32"

abbreviation NUL :: char where
  "NUL \<equiv> CHR 0x00"

abbreviation NL :: string where
  "NL \<equiv> [CHR 0x0A]"

abbreviation DQ :: string where
  "DQ \<equiv> [CHR 0x22]"

record time_info =
  time_us :: "64 word"
  function_name :: string

record benchmark_t =
  total_time :: "64 word"
  start_time :: "64 word"
  timings :: "time_info list"
  timing_index :: nat

text \<open>
  The array \<^verbatim>\<open>timings\<close> has \<^const>\<open>MAX_FUNS_TO_BENCH\<close> elements and every
  \<^verbatim>\<open>function_name\<close> buffer has \<^const>\<open>MAX_FUNS_NAME_LENGTH\<close> bytes: the C types fix both,
  the lists of the model carry them as a side condition.
\<close>

definition array_ok :: "benchmark_t \<Rightarrow> bool" where
  "array_ok b \<longleftrightarrow>
     length (timings b) = MAX_FUNS_TO_BENCH \<and>
     list_all (\<lambda>e. length (function_name e) = MAX_FUNS_NAME_LENGTH) (timings b)"

subsection \<open>The clock\<close>

record timespec =
  tv_sec :: "64 word"
  tv_nsec :: "64 word"

text \<open>C's integer division truncates towards zero.\<close>

definition c_div :: "int \<Rightarrow> int \<Rightarrow> int" where
  "c_div a b = sgn a * sgn b * (\<bar>a\<bar> div \<bar>b\<bar>)"

text \<open>\<^verbatim>\<open>get_time_us\<close>, as a function of what \<^verbatim>\<open>clock_gettime\<close> stored in \<^verbatim>\<open>ts\<close>.\<close>

definition get_time_us :: "timespec \<Rightarrow> 64 word" where
  "get_time_us ts = tv_sec ts * 1000000 + word_of_int (c_div (sint (tv_nsec ts)) 1000)"

subsection \<open>Initialisation, start and stop\<close>

definition benchmark_init :: "benchmark_t \<Rightarrow> benchmark_t" where
  "benchmark_init b = b\<lparr>total_time := 0, timing_index := 0, start_time := 0\<rparr>"

text \<open>The macro \<^verbatim>\<open>START_TIMING()\<close>.\<close>

definition START_TIMING :: "timespec \<Rightarrow> benchmark_t \<Rightarrow> benchmark_t" where
  "START_TIMING ts b = b\<lparr>start_time := get_time_us ts\<rparr>"

text \<open>The characters of the C string that starts at the head of a byte list.\<close>

definition c_str :: "string \<Rightarrow> string" where
  "c_str s = takeWhile (\<lambda>c. c \<noteq> NUL) s"

text \<open>
  \<^verbatim>\<open>strncpy(dest, src, n)\<close>: the first \<open>n\<close> characters of \<open>src\<close>, padded with NUL up to
  \<open>n\<close> bytes, written over the first \<open>n\<close> bytes of \<open>dest\<close>.
\<close>

definition strncpy :: "string \<Rightarrow> string \<Rightarrow> nat \<Rightarrow> string" where
  "strncpy dest src n =
     (let s = take n (c_str src) in s @ replicate (n - length s) NUL @ drop n dest)"

definition capacity_message :: string where
  "capacity_message = ''Error: Exceeded maximum number of benchmarked functions!'' @ NL"

text \<open>
  \<^verbatim>\<open>record_timing\<close>: the new store and the text written to \<^verbatim>\<open>stderr\<close>. The clock reading
  \<open>ts\<close> is what \<^verbatim>\<open>clock_gettime\<close> returns inside the call.
\<close>

definition record_timing :: "timespec \<Rightarrow> string \<Rightarrow> benchmark_t \<Rightarrow> benchmark_t \<times> string" where
  "record_timing ts fname b =
     (if MAX_FUNS_TO_BENCH \<le> timing_index b then (b, capacity_message)
      else
        let end_time = get_time_us ts;
            i = timing_index b;
            b1 = b\<lparr>timings := (timings b)[i := (timings b ! i)\<lparr>time_us := end_time - start_time b\<rparr>]\<rparr>;
            b2 = b1\<lparr>total_time := total_time b1 + time_us (timings b1 ! i)\<rparr>;
            b3 = b2\<lparr>timings := (timings b2)[i := (timings b2 ! i)
                   \<lparr>function_name :=
                      strncpy (function_name (timings b2 ! i)) fname (MAX_FUNS_NAME_LENGTH - 1)\<rparr>]\<rparr>;
            b4 = b3\<lparr>timings := (timings b3)[i := (timings b3 ! i)
                   \<lparr>function_name :=
                      (function_name (timings b3 ! i))[MAX_FUNS_NAME_LENGTH - 1 := NUL]\<rparr>]\<rparr>
        in (b4\<lparr>timing_index := i + 1\<rparr>, ''''))"

text \<open>The macro \<^verbatim>\<open>END_TIMING(FUNC_NAME)\<close>.\<close>

definition END_TIMING :: "timespec \<Rightarrow> string \<Rightarrow> benchmark_t \<Rightarrow> benchmark_t \<times> string" where
  "END_TIMING ts fname b = record_timing ts fname b"

text \<open>The static instance, zero-initialised as C does before \<^verbatim>\<open>main\<close> runs.\<close>

definition benchmarks :: benchmark_t where
  "benchmarks =
     \<lparr>total_time = 0, start_time = 0,
      timings = replicate MAX_FUNS_TO_BENCH
                  \<lparr>time_us = 0, function_name = replicate MAX_FUNS_NAME_LENGTH NUL\<rparr>,
      timing_index = 0\<rparr>"

section \<open>Floating point\<close>

text \<open>
  A \<^verbatim>\<open>double\<close> is an IEEE 754 binary64 value: a sign and a magnitude that is a rational
  number of the form \<open>n * 2 ^ q\<close> with \<open>n < 2 ^ 53\<close> and \<open>- 1074 \<le> q\<close>, or an infinity, or a
  NaN. Every operation computes the exact result and rounds it to the nearest such value,
  ties to the even significand (the rounding mode a C program starts in). A NaN carries
  its sign bit (\<open>True\<close> is minus), which \<^verbatim>\<open>printf\<close> shows: as on x86-64 with SSE2, an invalid
  operation (\<open>0 / 0\<close>, \<open>\<infinity> / \<infinity>\<close>, \<open>0 * \<infinity>\<close>) gives the NaN with the sign bit set, and an
  operation on a NaN returns that NaN (the first one when both operands are NaNs).
\<close>

datatype double = DFin bool rat | DInf bool | DNaN bool

definition pow2 :: "int \<Rightarrow> rat" where
  "pow2 k = (if 0 \<le> k then 2 ^ nat k else 1 / 2 ^ nat (- k))"

text \<open>The exponent \<open>\<lfloor>log\<^sub>2 x\<rfloor>\<close> of a positive rational.\<close>

definition log2floor_below :: "rat \<Rightarrow> int \<Rightarrow> int" where
  "log2floor_below x j = (if x = pow2 (- j) then - j else - j - 1)"

definition log2floor :: "rat \<Rightarrow> int" where
  "log2floor x =
     (if 1 \<le> x then bitlen \<lfloor>x\<rfloor> - 1 else log2floor_below x (bitlen \<lfloor>1 / x\<rfloor> - 1))"

text \<open>Rounding to the nearest integer, a tie to the even one.\<close>

definition tie_even :: "int \<Rightarrow> rat \<Rightarrow> int" where
  "tie_even f d = (if d < 1 / 2 then f else if 1 / 2 < d then f + 1
                   else if even f then f else f + 1)"

definition round_even :: "rat \<Rightarrow> int" where
  "round_even x = tie_even \<lfloor>x\<rfloor> (x - of_int \<lfloor>x\<rfloor>)"

text \<open>
  Rounding of an exact magnitude \<open>m \<ge> 0\<close> with sign \<open>s\<close> (\<open>True\<close> is minus): to a multiple of
  \<open>2 ^ q\<close>, where \<open>q\<close> is 52 below the exponent of \<open>m\<close> and at least \<open>- 1074\<close>; a result of
  \<open>2 ^ 1024\<close> or more is an infinity.
\<close>

definition finite_or_inf :: "bool \<Rightarrow> rat \<Rightarrow> double" where
  "finite_or_inf s r = (if pow2 1024 \<le> r then DInf s else DFin s r)"

definition round_to :: "bool \<Rightarrow> rat \<Rightarrow> int \<Rightarrow> double" where
  "round_to s m q = finite_or_inf s (of_int (round_even (m / pow2 q)) * pow2 q)"

definition round_double :: "bool \<Rightarrow> rat \<Rightarrow> double" where
  "round_double s m =
     (if m = 0 then DFin s 0 else round_to s m (max (log2floor m) (- 1022) - 52))"

text \<open>A decimal literal of the source and the conversion of an integer.\<close>

definition d_lit :: "rat \<Rightarrow> double" where
  "d_lit r = round_double (r < 0) \<bar>r\<bar>"

definition d_of_int :: "int \<Rightarrow> double" where
  "d_of_int i = round_double (i < 0) (of_int \<bar>i\<bar>)"

fun d_mul :: "double \<Rightarrow> double \<Rightarrow> double" where
  "d_mul (DNaN s) _ = DNaN s"
| "d_mul _ (DNaN t) = DNaN t"
| "d_mul (DInf s) (DInf t) = DInf (s \<noteq> t)"
| "d_mul (DInf s) (DFin t m) = (if m = 0 then DNaN True else DInf (s \<noteq> t))"
| "d_mul (DFin s m) (DInf t) = (if m = 0 then DNaN True else DInf (s \<noteq> t))"
| "d_mul (DFin s m) (DFin t n) = round_double (s \<noteq> t) (m * n)"

fun d_div :: "double \<Rightarrow> double \<Rightarrow> double" where
  "d_div (DNaN s) _ = DNaN s"
| "d_div _ (DNaN t) = DNaN t"
| "d_div (DInf s) (DInf t) = DNaN True"
| "d_div (DInf s) (DFin t n) = DInf (s \<noteq> t)"
| "d_div (DFin s m) (DInf t) = DFin (s \<noteq> t) 0"
| "d_div (DFin s m) (DFin t n) =
     (if n = 0 then (if m = 0 then DNaN True else DInf (s \<noteq> t))
      else round_double (s \<noteq> t) (m / n))"

fun fabs :: "double \<Rightarrow> double" where
  "fabs (DFin s m) = DFin False m"
| "fabs (DInf s) = DInf False"
| "fabs (DNaN s) = DNaN False"

definition signed_mag :: "bool \<Rightarrow> rat \<Rightarrow> rat" where
  "signed_mag s m = (if s then - m else m)"

text \<open>The comparisons \<^verbatim>\<open><=\<close>, \<^verbatim>\<open><\<close> and \<^verbatim>\<open>==\<close>: false whenever an operand is a NaN.\<close>

fun d_le :: "double \<Rightarrow> double \<Rightarrow> bool" where
  "d_le (DNaN s) _ = False"
| "d_le _ (DNaN t) = False"
| "d_le (DInf s) (DInf t) = (s \<or> \<not> t)"
| "d_le (DInf s) (DFin t n) = s"
| "d_le (DFin s m) (DInf t) = (\<not> t)"
| "d_le (DFin s m) (DFin t n) = (signed_mag s m \<le> signed_mag t n)"

fun d_less :: "double \<Rightarrow> double \<Rightarrow> bool" where
  "d_less (DNaN s) _ = False"
| "d_less _ (DNaN t) = False"
| "d_less (DInf s) (DInf t) = (s \<and> \<not> t)"
| "d_less (DInf s) (DFin t n) = s"
| "d_less (DFin s m) (DInf t) = (\<not> t)"
| "d_less (DFin s m) (DFin t n) = (signed_mag s m < signed_mag t n)"

fun d_eq :: "double \<Rightarrow> double \<Rightarrow> bool" where
  "d_eq (DFin s m) (DFin t n) = (signed_mag s m = signed_mag t n)"
| "d_eq (DInf s) (DInf t) = (s = t)"
| "d_eq _ _ = False"

definition INT_MAX :: int where
  "INT_MAX = 2147483647"

definition INT_MIN :: int where
  "INT_MIN = - 2147483648"

text \<open>
  The cast \<^verbatim>\<open>(int)\<close> of a double drops the fraction. C leaves the behaviour undefined when
  the result does not fit an \<^verbatim>\<open>int\<close> (also for an infinity and a NaN): \<open>None\<close>.
\<close>

fun d_to_int :: "double \<Rightarrow> int option" where
  "d_to_int (DFin s m) =
     (let v = (if s then - \<lfloor>m\<rfloor> else \<lfloor>m\<rfloor>)
      in if INT_MIN \<le> v \<and> v \<le> INT_MAX then Some v else None)"
| "d_to_int (DInf s) = None"
| "d_to_int (DNaN s) = None"

section \<open>Formatted output\<close>

definition digit_char :: "int \<Rightarrow> char" where
  "digit_char d = ''0123456789'' ! nat d"

text \<open>The decimal digits of a natural number, held in an \<^typ>\<open>int\<close>.\<close>

function dec :: "int \<Rightarrow> string" where
  "dec n = (if n < 10 then [digit_char n] else dec (n div 10) @ [digit_char (n mod 10)])"
  by pat_completeness auto
termination
  by (relation "measure nat") auto

declare dec.simps [simp del]

text \<open>The conversion \<^verbatim>\<open>%lld\<close>.\<close>

definition fmt_lld :: "64 word \<Rightarrow> string" where
  "fmt_lld w = (if sint w < 0 then ''-'' @ dec (- sint w) else dec (sint w))"

text \<open>A field width pads with spaces: on the left, or on the right with the flag \<^verbatim>\<open>-\<close>.\<close>

definition pad_left :: "nat \<Rightarrow> string \<Rightarrow> string" where
  "pad_left w s = replicate (w - length s) (CHR '' '') @ s"

definition pad_right :: "nat \<Rightarrow> string \<Rightarrow> string" where
  "pad_right w s = s @ replicate (w - length s) (CHR '' '')"

text \<open>
  The conversion \<^verbatim>\<open>%.pf\<close> without a width: the exact value of the double rounded to \<open>p\<close>
  decimals, ties to even, as glibc prints it; the sign is shown whenever the sign bit is
  set. An infinity prints as \<^verbatim>\<open>inf\<close> or \<^verbatim>\<open>-inf\<close>, a NaN as \<^verbatim>\<open>nan\<close> or \<^verbatim>\<open>-nan\<close>.
\<close>

definition zero_pad :: "nat \<Rightarrow> string \<Rightarrow> string" where
  "zero_pad p ds = replicate (p - length ds) (CHR ''0'') @ ds"

definition fixed_digits :: "bool \<Rightarrow> nat \<Rightarrow> int \<Rightarrow> string" where
  "fixed_digits s p n =
     (if s then ''-'' else '''') @ dec (n div 10 ^ p) @
     (if p = 0 then '''' else ''.'' @ zero_pad p (dec (n mod 10 ^ p)))"

fun fmt_fixed :: "nat \<Rightarrow> double \<Rightarrow> string" where
  "fmt_fixed p (DFin s m) = fixed_digits s p (round_even (m * 10 ^ p))"
| "fmt_fixed p (DInf s) = (if s then ''-inf'' else ''inf'')"
| "fmt_fixed p (DNaN s) = (if s then ''-nan'' else ''nan'')"

text \<open>The conversion \<^verbatim>\<open>%w.pf\<close>.\<close>

definition fmt_f :: "nat \<Rightarrow> nat \<Rightarrow> double \<Rightarrow> string" where
  "fmt_f w p d = pad_left w (fmt_fixed p d)"

section \<open>SI scales\<close>

record scale =
  suffix :: string
  scale_divisor :: double

definition scale_nano_idx :: nat where "scale_nano_idx = 0"
definition scale_micro_idx :: nat where "scale_micro_idx = 1"
definition scale_milli_idx :: nat where "scale_milli_idx = 2"
definition scale_unit_idx :: nat where "scale_unit_idx = 3"
definition scale_kilo_idx :: nat where "scale_kilo_idx = 4"
definition scale_mega_idx :: nat where "scale_mega_idx = 5"
definition scale_giga_idx :: nat where "scale_giga_idx = 6"
definition scale_tera_idx :: nat where "scale_tera_idx = 7"
definition scale_count :: nat where "scale_count = 8"

definition scales :: "scale list" where
  "scales =
     [\<lparr>suffix = ''n'', scale_divisor = d_lit (1 / 10 ^ 9)\<rparr>,
      \<lparr>suffix = [CHR 0xC2, CHR 0xB5], scale_divisor = d_lit (1 / 10 ^ 6)\<rparr>,
      \<lparr>suffix = ''m'', scale_divisor = d_lit (1 / 10 ^ 3)\<rparr>,
      \<lparr>suffix = '''', scale_divisor = d_of_int 1\<rparr>,
      \<lparr>suffix = ''k'', scale_divisor = d_lit (10 ^ 3)\<rparr>,
      \<lparr>suffix = ''M'', scale_divisor = d_lit (10 ^ 6)\<rparr>,
      \<lparr>suffix = ''G'', scale_divisor = d_lit (10 ^ 9)\<rparr>,
      \<lparr>suffix = ''T'', scale_divisor = d_lit (10 ^ 12)\<rparr>]"

text \<open>
  The loop of \<^verbatim>\<open>get_scale\<close>, \<^verbatim>\<open>for (i = scale_count - 1; i >= 0; --i)\<close>: the argument is
  \<open>i + 1\<close>, so \<open>0\<close> is the exit of the loop.
\<close>

fun get_scale_loop :: "double \<Rightarrow> nat \<Rightarrow> scale" where
  "get_scale_loop v 0 = scales ! scale_nano_idx"
| "get_scale_loop v (Suc i) =
     (let scaled = d_div v (scale_divisor (scales ! i))
      in if d_le (d_lit 1) (fabs scaled) then scales ! i else get_scale_loop v i)"

text \<open>The test of the loop: \<^verbatim>\<open>fabs(v / scales[i].scale_divisor) >= 1.0\<close>.\<close>

definition scale_fits :: "double \<Rightarrow> nat \<Rightarrow> bool" where
  "scale_fits v i \<longleftrightarrow> d_le (d_lit 1) (fabs (d_div v (scale_divisor (scales ! i))))"

definition get_scale :: "double \<Rightarrow> scale" where
  "get_scale v = (if d_eq v (d_lit 0) then scales ! scale_nano_idx
                  else get_scale_loop v scale_count)"

text \<open>
  \<^verbatim>\<open>snprintf(buffer, buf_size, ...)\<close>: the C string in \<open>buffer\<close> after the call. It keeps at
  most \<open>buf_size - 1\<close> bytes of the text; with \<open>buf_size = 0\<close> nothing is written.
\<close>

definition snprintf :: "string \<Rightarrow> nat \<Rightarrow> string \<Rightarrow> string" where
  "snprintf buffer buf_size s = (if buf_size = 0 then buffer else take (buf_size - 1) s)"

text \<open>
  \<^verbatim>\<open>format_scaled\<close>: the C string in \<open>buffer\<close> after the call; \<open>scaled_text\<close> is its body
  once the scale \<open>s\<close> is chosen.
\<close>

definition scaled_text :: "scale \<Rightarrow> double \<Rightarrow> string \<Rightarrow> nat \<Rightarrow> string \<Rightarrow> string" where
  "scaled_text s val buffer buf_size unit =
     snprintf buffer buf_size
       (fmt_f 7 3 (d_div val (scale_divisor s)) @ '' '' @ suffix s @ unit)"

definition format_scaled :: "double \<Rightarrow> string \<Rightarrow> nat \<Rightarrow> string \<Rightarrow> string" where
  "format_scaled val buffer buf_size unit = scaled_text (get_scale val) val buffer buf_size unit"

section \<open>Colours and glyphs\<close>

definition RESET :: string where "RESET = CHR 0x1B # ''[0m''"
definition BRIGHT_RED :: string where "BRIGHT_RED = CHR 0x1B # ''[91m''"
definition RED :: string where "RED = CHR 0x1B # ''[31m''"
definition MAGENTA :: string where "MAGENTA = CHR 0x1B # ''[35m''"
definition BRIGHT_YELLOW :: string where "BRIGHT_YELLOW = CHR 0x1B # ''[93m''"
definition YELLOW :: string where "YELLOW = CHR 0x1B # ''[33m''"
definition BRIGHT_GREEN :: string where "BRIGHT_GREEN = CHR 0x1B # ''[92m''"
definition GREEN :: string where "GREEN = CHR 0x1B # ''[32m''"
definition BLUE :: string where "BLUE = CHR 0x1B # ''[34m''"
definition BRIGHT_CYAN :: string where "BRIGHT_CYAN = CHR 0x1B # ''[96m''"
definition BRIGHT_BLUE :: string where "BRIGHT_BLUE = CHR 0x1B # ''[94m''"
definition BAR_COLOR :: string where "BAR_COLOR = BRIGHT_BLUE"

text \<open>The bar glyph U+25B0, the stopwatch U+23F1 U+FE0F and the flash U+26A1, in UTF-8.\<close>

definition bar_glyph :: string where
  "bar_glyph = [CHR 0xE2, CHR 0x96, CHR 0xB0]"

definition stopwatch_glyph :: string where
  "stopwatch_glyph = [CHR 0xE2, CHR 0x8F, CHR 0xB1, CHR 0xEF, CHR 0xB8, CHR 0x8F]"

definition flash_glyph :: string where
  "flash_glyph = [CHR 0xE2, CHR 0x9A, CHR 0xA1]"

text \<open>The separator \<^verbatim>\<open>line\<close>: a newline, 64 bar glyphs, a newline.\<close>

definition line :: string where
  "line = NL @ concat (replicate 64 bar_glyph) @ NL"

definition dashes :: string where
  "dashes = replicate 57 (CHR ''-'')"

section \<open>The FFT report\<close>

text \<open>
  \<^verbatim>\<open>FFT_bench\<close>: the text written to \<^verbatim>\<open>stdout\<close>. The function \<^verbatim>\<open>log2\<close> of the C library
  is the parameter \<open>lg\<close>; \<^verbatim>\<open>unsigned int\<close> is a 32-bit word. The local buffers are not
  initialised; \<^verbatim>\<open>format_scaled\<close> overwrites them, their \<^const>\<open>STRING_LENGTH\<close> being positive,
  so the model starts them empty.
\<close>

definition fft_mflops :: "(double \<Rightarrow> double) \<Rightarrow> double \<Rightarrow> 32 word \<Rightarrow> double" where
  "fft_mflops lg mu_s FFT_size =
     (let fft_points = d_of_int (uint FFT_size)
      in d_div (d_mul (d_mul (d_lit 5) fft_points) (lg fft_points))
               (d_mul mu_s (scale_divisor (scales ! scale_micro_idx))))"

definition FFT_bench :: "(double \<Rightarrow> double) \<Rightarrow> double \<Rightarrow> 32 word \<Rightarrow> string" where
  "FFT_bench lg mu_s FFT_size =
     (if d_le mu_s (d_lit 0) then ''''
      else
        let mflops = fft_mflops lg mu_s FFT_size;
            time_buffer = format_scaled (d_mul mu_s (scale_divisor (scales ! scale_micro_idx)))
                            [] STRING_LENGTH ''s'';
            mflops_buffer = format_scaled mflops [] STRING_LENGTH ''FLOP/s''
        in BAR_COLOR @ line @ RESET @
           stopwatch_glyph @ ''  '' @ BRIGHT_CYAN @ ''FFT per frame'' @ RESET @ ''  : '' @
             BRIGHT_YELLOW @ time_buffer @ RESET @ '' ('' @ fmt_f 0 3 mu_s @ '' '' @
             [CHR 0xC2, CHR 0xB5] @ ''s)'' @ NL @
           flash_glyph @ ''  '' @ BRIGHT_CYAN @ ''Speed         '' @ RESET @ ''  : '' @
             BRIGHT_GREEN @ mflops_buffer @ RESET @ '' ('' @ fmt_f 0 3 mflops @ '' FLOP/s)'' @ NL @
           BAR_COLOR @ line @ RESET @ NL @ NL)"

section \<open>The reports\<close>

definition compare_times :: "time_info \<Rightarrow> time_info \<Rightarrow> int" where
  "compare_times ta tb =
     (if time_us ta <s time_us tb then 1
      else if time_us tb <s time_us ta then - 1
      else 0)"

definition get_gradient_color :: "double \<Rightarrow> string" where
  "get_gradient_color percentage =
     (if d_le (d_lit 80) percentage then BRIGHT_RED
      else if d_le (d_lit 60) percentage then RED
      else if d_le (d_lit 40) percentage then MAGENTA
      else if d_le (d_lit 25) percentage then BRIGHT_YELLOW
      else if d_le (d_lit 15) percentage then YELLOW
      else if d_le (d_lit 5) percentage then BRIGHT_GREEN
      else if d_less (d_lit (1 / 10)) percentage then GREEN
      else BLUE)"

text \<open>
  The expression \<^verbatim>\<open>(double)time_us * 100.0 / benchmarks.total_time\<close> of both
  \<^verbatim>\<open>print_bench_ranked\<close> and \<^verbatim>\<open>print_bench_json\<close>.
\<close>

definition percentage_of :: "64 word \<Rightarrow> 64 word \<Rightarrow> double" where
  "percentage_of t tot = d_div (d_mul (d_of_int (sint t)) (d_lit 100)) (d_of_int (sint tot))"

text \<open>
  \<^verbatim>\<open>qsort\<close> belongs to the C library and is a parameter \<open>qs\<close> of the model. What C promises
  of it, for the comparison \<^verbatim>\<open>compare_times\<close>: the result is a rearrangement of the array
  in which no element compares greater than a later one. The order of elements that
  compare equal is left open.
\<close>

definition qsort_ok :: "(time_info list \<Rightarrow> time_info list) \<Rightarrow> bool" where
  "qsort_ok qs \<longleftrightarrow>
     (\<forall>xs. mset (qs xs) = mset xs \<and> sorted_wrt (\<lambda>a b. compare_times a b \<le> 0) (qs xs))"

text \<open>
  The pieces of one turn of the loop of \<^verbatim>\<open>print_bench_ranked\<close>:
  \<^verbatim>\<open>(int)(BAR_LENGTH * percentage / 100.0)\<close>, where \<open>None\<close> is the undefined cast,
  \<^verbatim>\<open>time_us * scales[scale_micro_idx].scale_divisor\<close>,
  \<^verbatim>\<open>(double)time_us / max_time * 100.0\<close>, and the two lines printed.
\<close>

definition filled_length_of :: "double \<Rightarrow> int option" where
  "filled_length_of percentage =
     d_to_int (d_div (d_mul (d_of_int BAR_LENGTH) percentage) (d_lit 100))"

definition seconds_of :: "64 word \<Rightarrow> double" where
  "seconds_of t = d_mul (d_of_int (sint t)) (scale_divisor (scales ! scale_micro_idx))"

definition share_of_max :: "64 word \<Rightarrow> 64 word \<Rightarrow> double" where
  "share_of_max t max_time = d_mul (d_div (d_of_int (sint t)) (d_of_int (sint max_time))) (d_lit 100)"

definition table_line :: "string \<Rightarrow> string \<Rightarrow> string \<Rightarrow> double \<Rightarrow> string" where
  "table_line func_color name time_str percentage =
     func_color @ ''| '' @ pad_right 20 name @ '' | '' @ pad_left 12 time_str @ '' | '' @
     fmt_f 6 4 percentage @ ''% |'' @ RESET @ NL"

definition bar_line :: "int \<Rightarrow> string" where
  "bar_line filled_length =
     BRIGHT_CYAN @ ''['' @ concat (replicate (nat filled_length) bar_glyph) @
     replicate (nat (BAR_LENGTH - filled_length)) (CHR '' '') @ '']'' @ RESET @ NL"

text \<open>
  One turn of the loop: the table row and the bar row of entry \<open>i\<close>. \<open>None\<close> is undefined
  behaviour: the cast to \<^verbatim>\<open>int\<close> out of range, or the overflow of
  \<^verbatim>\<open>BAR_LENGTH - filled_length\<close>.
\<close>

definition ranked_row :: "benchmark_t \<Rightarrow> 64 word \<Rightarrow> nat \<Rightarrow> string option" where
  "ranked_row b max_time i =
     (let e = timings b ! i;
          percentage = percentage_of (time_us e) (total_time b)
      in case filled_length_of percentage of
           None \<Rightarrow> None
         | Some filled_length \<Rightarrow>
             if INT_MAX < BAR_LENGTH - filled_length then None
             else
               let time_str = format_scaled (seconds_of (time_us e)) [] STRING_LENGTH ''s'';
                   func_color = get_gradient_color (share_of_max (time_us e) max_time)
               in Some (table_line func_color (c_str (function_name e)) time_str percentage @
                        bar_line filled_length))"

definition ranked_header :: string where
  "ranked_header =
     BRIGHT_CYAN @ dashes @ NL @
     ''| '' @ pad_right 20 ''Function'' @ '' | '' @ pad_right 12 ''Exec Time'' @ '' | '' @
       pad_right 7 ''% of total runtime'' @ '' |'' @ NL @
     dashes @ RESET @ NL"

definition ranked_footer :: string where
  "ranked_footer = BRIGHT_CYAN @ dashes @ NL @ RESET"

text \<open>
  \<^verbatim>\<open>print_bench_ranked\<close>: the store after the in-place sort and the text written to
  \<^verbatim>\<open>stdout\<close>, or \<open>None\<close> when a row runs into undefined behaviour.
\<close>

definition sort_timings :: "(time_info list \<Rightarrow> time_info list) \<Rightarrow> benchmark_t \<Rightarrow> benchmark_t" where
  "sort_timings qs b =
     b\<lparr>timings := qs (take (timing_index b) (timings b)) @ drop (timing_index b) (timings b)\<rparr>"

definition print_bench_ranked ::
  "(time_info list \<Rightarrow> time_info list) \<Rightarrow> benchmark_t \<Rightarrow> (benchmark_t \<times> string) option" where
  "print_bench_ranked qs b =
     (if timing_index b = 0 then Some (b, NL @ ''No benchmark data available.'' @ NL)
      else
        let b' = sort_timings qs b;
            max_time = time_us (timings b' ! 0)
        in case those (map (ranked_row b' max_time) [0..<timing_index b']) of
             None \<Rightarrow> None
           | Some rows \<Rightarrow> Some (b', ranked_header @ concat rows @ ranked_footer))"

text \<open>
  \<^verbatim>\<open>print_bench_json\<close>: one turn of the loop, and the whole text. \<^verbatim>\<open>timing_index - 1\<close> is
  computed in \<^verbatim>\<open>size_t\<close>; the loop body runs only when \<^verbatim>\<open>timing_index\<close> is positive.
\<close>

definition json_row :: "benchmark_t \<Rightarrow> nat \<Rightarrow> string" where
  "json_row b i =
     (let percentage = percentage_of (time_us (timings b ! i)) (total_time b)
      in ''  '' @ DQ @ c_str (function_name (timings b ! i)) @ DQ @ '': {'' @ DQ @ ''time_'' @
         [CHR 0xCE, CHR 0xBC] @ ''s'' @ DQ @ '': '' @ fmt_lld (time_us (timings b ! i)) @
         '', '' @ DQ @ ''percentage'' @ DQ @ '': '' @ fmt_f 0 2 percentage @ ''}'' @
         (if i < timing_index b - 1 then '','' else '''') @ NL)"

definition print_bench_json :: "benchmark_t \<Rightarrow> string" where
  "print_bench_json b =
     ''>>>{'' @ NL @ concat (map (json_row b) [0..<timing_index b]) @ ''}<<<'' @ NL"

definition print_bench :: "benchmark_t \<Rightarrow> string" where
  "print_bench b =
     concat (map (\<lambda>i. c_str (function_name (timings b ! i)) @ '':'' @
                      fmt_lld (time_us (timings b ! i)) @ NL) [0..<timing_index b])"

section \<open>Sequences of calls\<close>







text \<open>
  Two sorting functions that keep the promise of \<^verbatim>\<open>qsort\<close>: one keeps elements that compare
  equal in their order, the other reverses them.
\<close>

definition stable_qsort :: "time_info list \<Rightarrow> time_info list" where
  "stable_qsort xs = sort_key (\<lambda>e. - sint (time_us e)) xs"

definition flipping_qsort :: "time_info list \<Rightarrow> time_info list" where
  "flipping_qsort xs = rev (sort_key (\<lambda>e. sint (time_us e)) xs)"

text \<open>An entry as \<^verbatim>\<open>record_timing\<close> leaves it, and a store that holds a list of entries.\<close>

definition stored_entry :: "string \<Rightarrow> 64 word \<Rightarrow> time_info" where
  "stored_entry fname t =
     \<lparr>time_us = t,
      function_name = (strncpy (replicate MAX_FUNS_NAME_LENGTH NUL) fname
                         (MAX_FUNS_NAME_LENGTH - 1))[MAX_FUNS_NAME_LENGTH - 1 := NUL]\<rparr>"

definition store_of :: "time_info list \<Rightarrow> 64 word \<Rightarrow> benchmark_t" where
  "store_of es tot =
     \<lparr>total_time = tot, start_time = 0,
      timings = es @ replicate (MAX_FUNS_TO_BENCH - length es) (stored_entry [] 0),
      timing_index = length es\<rparr>"

text \<open>
  The shape of a line as the specification words it, \<open>"label": {"key": N, "percentage": P}\<close>
  with a comma unless it is the last line; the key is a parameter.
\<close>

definition json_line :: "string \<Rightarrow> string \<Rightarrow> string \<Rightarrow> string \<Rightarrow> bool \<Rightarrow> string" where
  "json_line key label N P is_last =
     DQ @ label @ DQ @ '': {'' @ DQ @ key @ DQ @ '': '' @ N @ '', '' @ DQ @ ''percentage'' @ DQ @
     '': '' @ P @ ''}'' @ (if is_last then '''' else '','')"

text \<open>The key the code prints: \<^verbatim>\<open>time_\<close>, the Greek letter mu (U+03BC) in UTF-8, \<^verbatim>\<open>s\<close>.\<close>

definition time_key :: string where
  "time_key = ''time_'' @ [CHR 0xCE, CHR 0xBC] @ ''s''"

text \<open>Reading decimal text back: digits, the number they write, and the form \<open>[-]d...d.dd\<close>.\<close>

definition is_digit :: "char \<Rightarrow> bool" where
  "is_digit c \<longleftrightarrow> c \<in> set ''0123456789''"

definition digit_value :: "char \<Rightarrow> int" where
  "digit_value c = int (length (takeWhile (\<lambda>d. d \<noteq> c) ''0123456789''))"

definition digits_value :: "string \<Rightarrow> int" where
  "digits_value s = foldl (\<lambda>a c. 10 * a + digit_value c) 0 s"

definition decimal_value :: "string \<Rightarrow> int" where
  "decimal_value s =
     (case s of [] \<Rightarrow> 0
      | c # cs \<Rightarrow> if c = CHR ''-'' then - digits_value cs else digits_value s)"

definition unsigned_two_decimals :: "string \<Rightarrow> bool" where
  "unsigned_two_decimals s \<longleftrightarrow>
     (case rev s of
        d2 # d1 # dot # ds \<Rightarrow>
          is_digit d2 \<and> is_digit d1 \<and> dot = CHR ''.'' \<and> ds \<noteq> [] \<and> list_all is_digit ds
      | _ \<Rightarrow> False)"

definition two_decimals :: "string \<Rightarrow> bool" where
  "two_decimals s \<longleftrightarrow>
     (case s of [] \<Rightarrow> False
      | c # cs \<Rightarrow> if c = CHR ''-'' then unsigned_two_decimals cs else unsigned_two_decimals s)"

section \<open>Properties of recording\<close>

lemma record_timing_full:
  "MAX_FUNS_TO_BENCH \<le> timing_index b \<Longrightarrow> record_timing ts fname b = (b, capacity_message)"
  by (simp add: record_timing_def)

lemma record_timing_entry:
  assumes "timing_index b < MAX_FUNS_TO_BENCH" and "length (timings b) = MAX_FUNS_TO_BENCH"
  shows "fst (record_timing ts fname b) =
           b\<lparr>total_time := total_time b + (get_time_us ts - start_time b),
             timings := (timings b)[timing_index b :=
               (timings b ! timing_index b)
               \<lparr>time_us := get_time_us ts - start_time b,
                function_name :=
                  (strncpy (function_name (timings b ! timing_index b)) fname
                     (MAX_FUNS_NAME_LENGTH - 1))[MAX_FUNS_NAME_LENGTH - 1 := NUL]\<rparr>],
             timing_index := timing_index b + 1\<rparr>"
  using assms by (simp add: record_timing_def Let_def)

lemma record_timing_silent:
  "timing_index b < MAX_FUNS_TO_BENCH \<Longrightarrow> snd (record_timing ts fname b) = ''''"
  by (simp add: record_timing_def Let_def)


lemma c_str_no_NUL: "NUL \<notin> set (c_str s)"
  unfolding c_str_def by (induction s) auto

lemma c_str_stop: "NUL \<notin> set s \<Longrightarrow> c_str (s @ NUL # t) = s"
  unfolding c_str_def by (induction s) auto

lemma length_strncpy: "n \<le> length dest \<Longrightarrow> length (strncpy dest src n) = length dest"
  by (simp add: strncpy_def Let_def)

lemma strncpy_terminated:
  assumes "n < length dest"
  shows "(strncpy dest src n)[n := NUL] =
           take n (c_str src) @ replicate (n - length (take n (c_str src))) NUL @ NUL # drop (Suc n) dest"
proof -
  let ?s = "take n (c_str src)"
  have len: "length (?s @ replicate (n - length ?s) NUL) = n" by simp
  have "(strncpy dest src n)[n := NUL] =
          ((?s @ replicate (n - length ?s) NUL) @ drop n dest)[n := NUL]"
    by (simp add: strncpy_def Let_def)
  also have "\<dots> = (?s @ replicate (n - length ?s) NUL) @ (drop n dest)[0 := NUL]"
    using len by (simp only: list_update_append) simp
  also have "(drop n dest)[0 := NUL] = NUL # drop (Suc n) dest"
    using assms by (simp add: Cons_nth_drop_Suc [symmetric])
  finally show ?thesis by simp
qed

lemma c_str_pad: "NUL \<notin> set s \<Longrightarrow> c_str (s @ replicate k NUL @ NUL # t) = s"
  unfolding c_str_def by (induction s) (auto simp: takeWhile_eq_Nil_iff intro: hd_append2 split: nat.splits, cases k, auto)

lemma c_str_stored:
  assumes "n < length dest"
  shows "c_str ((strncpy dest src n)[n := NUL]) = take n (c_str src)"
proof -
  have "NUL \<notin> set (take n (c_str src))"
    using c_str_no_NUL [of src] by (meson in_set_takeD)
  from c_str_pad [OF this] show ?thesis
    unfolding strncpy_terminated [OF assms] .
qed


lemma array_ok_benchmarks: "array_ok benchmarks"
  by (simp add: array_ok_def benchmarks_def list_all_iff)

lemma array_ok_record_timing:
  assumes "array_ok b"
  shows "array_ok (fst (record_timing ts fname b))"
proof (cases "timing_index b < MAX_FUNS_TO_BENCH")
  case False
  then show ?thesis using assms by (simp add: record_timing_def)
next
  case True
  from assms have len: "length (timings b) = MAX_FUNS_TO_BENCH"
    and all: "\<forall>e\<in>set (timings b). length (function_name e) = MAX_FUNS_NAME_LENGTH"
    by (simp_all add: array_ok_def list_all_iff)
  from True len all have "length (function_name (timings b ! timing_index b)) = MAX_FUNS_NAME_LENGTH"
    by simp
  then have "length ((strncpy (function_name (timings b ! timing_index b)) fname
                (MAX_FUNS_NAME_LENGTH - 1))[MAX_FUNS_NAME_LENGTH - 1 := NUL]) = MAX_FUNS_NAME_LENGTH"
    by (simp add: length_strncpy)
  with all len True show ?thesis
    unfolding array_ok_def list_all_iff record_timing_entry [OF True len]
    by (auto dest!: set_update_subset_insert [THEN subsetD])
qed

text \<open>
  Claim C5. When \<^verbatim>\<open>timing_index\<close> equals the capacity \<^const>\<open>MAX_FUNS_TO_BENCH\<close>, a call of
  \<^verbatim>\<open>record_timing\<close> returns the store as it was (index still at capacity, total and all
  entries unchanged) and writes the diagnostic, a non-empty line, to the error stream; the
  call returns to its caller, the function has no exit path.
\<close>

theorem record_timing_at_capacity:
  assumes "timing_index b = MAX_FUNS_TO_BENCH"
  shows "fst (record_timing ts fname b) = b
       \<and> timing_index (fst (record_timing ts fname b)) = MAX_FUNS_TO_BENCH
       \<and> total_time (fst (record_timing ts fname b)) = total_time b
       \<and> timings (fst (record_timing ts fname b)) = timings b
       \<and> snd (record_timing ts fname b) =
           ''Error: Exceeded maximum number of benchmarked functions!'' @ NL"
  using assms by (simp add: record_timing_def capacity_message_def)

theorem record_timing_at_capacity_witness:
  "timing_index (benchmarks\<lparr>timing_index := 600, total_time := 42\<rparr>) = MAX_FUNS_TO_BENCH
   \<and> record_timing \<lparr>tv_sec = 7, tv_nsec = 5000\<rparr> ''work'' (benchmarks\<lparr>timing_index := 600, total_time := 42\<rparr>)
       = (benchmarks\<lparr>timing_index := 600, total_time := 42\<rparr>,
          ''Error: Exceeded maximum number of benchmarked functions!'' @ NL)"
proof -
  have h: "timing_index (benchmarks\<lparr>timing_index := 600, total_time := 42\<rparr>) = MAX_FUNS_TO_BENCH"
    by (simp add: MAX_FUNS_TO_BENCH_def)
  from record_timing_at_capacity [OF h, of "\<lparr>tv_sec = 7, tv_nsec = 5000\<rparr>" "''work''"] h
  show ?thesis by (simp add: prod_eq_iff)
qed

text \<open>
  Claim C9. Whatever the length of the caller's label, the buffer that \<^verbatim>\<open>record_timing\<close>
  fills keeps its \<^const>\<open>MAX_FUNS_NAME_LENGTH\<close> bytes, its last byte is NUL, and the C string it
  holds is the first \<^const>\<open>MAX_FUNS_NAME_LENGTH\<close>\<open> - 1\<close> characters of the label: the whole label
  when it is shorter, exactly \<open>MAX_FUNS_NAME_LENGTH - 1\<close> characters when the label has
  \<^const>\<open>MAX_FUNS_NAME_LENGTH\<close> characters or more. Nothing else is written: the array keeps its
  shape and every other element is as before.
\<close>

theorem record_timing_label_bounded:
  assumes "timing_index b < MAX_FUNS_TO_BENCH" and "array_ok b"
  shows "length (function_name (timings (fst (record_timing ts label b)) ! timing_index b))
           = MAX_FUNS_NAME_LENGTH
       \<and> function_name (timings (fst (record_timing ts label b)) ! timing_index b)
           ! (MAX_FUNS_NAME_LENGTH - 1) = NUL
       \<and> c_str (function_name (timings (fst (record_timing ts label b)) ! timing_index b))
           = take (MAX_FUNS_NAME_LENGTH - 1) (c_str label)
       \<and> length (c_str (function_name (timings (fst (record_timing ts label b)) ! timing_index b)))
           < MAX_FUNS_NAME_LENGTH
       \<and> (MAX_FUNS_NAME_LENGTH \<le> length (c_str label) \<longrightarrow>
            length (c_str (function_name (timings (fst (record_timing ts label b)) ! timing_index b)))
              = MAX_FUNS_NAME_LENGTH - 1)
       \<and> (length (c_str label) < MAX_FUNS_NAME_LENGTH \<longrightarrow>
            c_str (function_name (timings (fst (record_timing ts label b)) ! timing_index b))
              = c_str label)
       \<and> array_ok (fst (record_timing ts label b))
       \<and> (\<forall>j. j \<noteq> timing_index b \<longrightarrow>
            timings (fst (record_timing ts label b)) ! j = timings b ! j)"
proof -
  from assms have len: "length (timings b) = MAX_FUNS_TO_BENCH"
    and all: "\<forall>e\<in>set (timings b). length (function_name e) = MAX_FUNS_NAME_LENGTH"
    by (simp_all add: array_ok_def list_all_iff)
  let ?old = "function_name (timings b ! timing_index b)"
  let ?new = "(strncpy ?old label (MAX_FUNS_NAME_LENGTH - 1))[MAX_FUNS_NAME_LENGTH - 1 := NUL]"
  from assms(1) len all have old: "length ?old = MAX_FUNS_NAME_LENGTH" by simp
  then have lt: "MAX_FUNS_NAME_LENGTH - 1 < length ?old"
    by (simp add: MAX_FUNS_NAME_LENGTH_def)
  have stored: "function_name (timings (fst (record_timing ts label b)) ! timing_index b) = ?new"
    using assms(1) len by (simp add: record_timing_entry)
  have l: "length ?new = MAX_FUNS_NAME_LENGTH"
    using old by (simp add: length_strncpy)
  have t: "?new ! (MAX_FUNS_NAME_LENGTH - 1) = NUL"
    using old by (simp add: length_strncpy MAX_FUNS_NAME_LENGTH_def)
  have c: "c_str ?new = take (MAX_FUNS_NAME_LENGTH - 1) (c_str label)"
    by (rule c_str_stored [OF lt])
  have frame: "\<forall>j. j \<noteq> timing_index b \<longrightarrow>
      timings (fst (record_timing ts label b)) ! j = timings b ! j"
    using assms(1) len by (simp add: record_timing_entry)
  show ?thesis
    unfolding stored using l t c frame array_ok_record_timing [OF assms(2)]
    by (simp add: MAX_FUNS_NAME_LENGTH_def)
qed


theorem record_timing_label_bounded_witness:
  "timing_index benchmarks < MAX_FUNS_TO_BENCH \<and> array_ok benchmarks
   \<and> c_str (function_name (timings (fst (record_timing \<lparr>tv_sec = 7, tv_nsec = 5000\<rparr>
          (replicate 150 (CHR ''x'')) benchmarks)) ! 0)) = replicate 99 (CHR ''x'')
   \<and> function_name (timings (fst (record_timing \<lparr>tv_sec = 7, tv_nsec = 5000\<rparr>
          (replicate 150 (CHR ''x'')) benchmarks)) ! 0) ! 99 = NUL"
proof -
  have h: "timing_index benchmarks < MAX_FUNS_TO_BENCH"
    by (simp add: benchmarks_def MAX_FUNS_TO_BENCH_def)
  have i: "timing_index benchmarks = 0"
    by (simp add: benchmarks_def)
  from record_timing_label_bounded [OF h array_ok_benchmarks,
      of "\<lparr>tv_sec = 7, tv_nsec = 5000\<rparr>" "replicate 150 (CHR ''x'')"] h array_ok_benchmarks
  show ?thesis
    unfolding i by (simp add: MAX_FUNS_NAME_LENGTH_def c_str_def)
qed

text \<open>
  Claim C10. \<^verbatim>\<open>record_timing\<close> never writes \<^verbatim>\<open>start_time\<close>: in every store, whether the call
  records or is rejected at capacity, the pending start mark is the same after the call,
  also after two calls in a row. So a stop into a free slot stores the clock reading minus
  that mark, a second stop with no start in between measures from the same mark again,
  and a stop right after \<^verbatim>\<open>benchmark_init\<close> (of any store, a full one included) measures
  from the instant 0. The only side condition besides the free slot is the size the C type
  gives the array.
\<close>

theorem record_timing_keeps_start_time:
  "start_time (fst (record_timing ts fname b)) = start_time b
   \<and> start_time (fst (END_TIMING ts' fname' (fst (END_TIMING ts fname b)))) = start_time b
   \<and> (length (timings b) = MAX_FUNS_TO_BENCH \<and> timing_index b < MAX_FUNS_TO_BENCH \<longrightarrow>
        time_us (timings (fst (END_TIMING ts fname b)) ! timing_index b)
          = get_time_us ts - start_time b)
   \<and> (length (timings b) = MAX_FUNS_TO_BENCH \<and> timing_index b + 1 < MAX_FUNS_TO_BENCH \<longrightarrow>
        time_us (timings (fst (END_TIMING ts' fname' (fst (END_TIMING ts fname b))))
                   ! (timing_index b + 1))
          = get_time_us ts' - start_time b)
   \<and> (length (timings b) = MAX_FUNS_TO_BENCH \<longrightarrow>
        time_us (timings (fst (END_TIMING ts fname (benchmark_init b))) ! 0) = get_time_us ts)"
proof -
  have keep: "start_time (fst (record_timing t f c)) = start_time c" for t f c
    by (simp add: record_timing_def Let_def)
  have first: "time_us (timings (fst (record_timing t f c)) ! timing_index c)
                 = get_time_us t - start_time c"
    if "length (timings c) = MAX_FUNS_TO_BENCH" and "timing_index c < MAX_FUNS_TO_BENCH"
    for t f c
    using that by (simp add: record_timing_entry)
  have second: "time_us (timings (fst (record_timing ts' fname' (fst (record_timing ts fname b))))
                   ! (timing_index b + 1))
                  = get_time_us ts' - start_time b"
    if l: "length (timings b) = MAX_FUNS_TO_BENCH" and i: "timing_index b + 1 < MAX_FUNS_TO_BENCH"
  proof -
    let ?b1 = "fst (record_timing ts fname b)"
    from i have lt: "timing_index b < MAX_FUNS_TO_BENCH" by simp
    have b1: "length (timings ?b1) = MAX_FUNS_TO_BENCH" "timing_index ?b1 = timing_index b + 1"
      using l lt by (simp_all add: record_timing_entry)
    with i have "timing_index ?b1 < MAX_FUNS_TO_BENCH" by simp
    from first [OF b1(1) this, of ts' fname'] show ?thesis
      by (simp add: b1(2) keep)
  qed
  have init: "time_us (timings (fst (record_timing ts fname (benchmark_init b))) ! 0) = get_time_us ts"
    if l: "length (timings b) = MAX_FUNS_TO_BENCH"
  proof -
    have l': "length (timings (benchmark_init b)) = MAX_FUNS_TO_BENCH"
      using l by (simp add: benchmark_init_def)
    have z: "timing_index (benchmark_init b) < MAX_FUNS_TO_BENCH"
      by (simp add: benchmark_init_def MAX_FUNS_TO_BENCH_def)
    from first [OF l' z, of ts fname] show ?thesis
      by (simp add: benchmark_init_def)
  qed
  show ?thesis
    unfolding END_TIMING_def using keep first second init by simp
qed

theorem record_timing_keeps_start_time_witness:
  "length (timings (START_TIMING \<lparr>tv_sec = 2, tv_nsec = 0\<rparr> benchmarks)) = MAX_FUNS_TO_BENCH
   \<and> timing_index (START_TIMING \<lparr>tv_sec = 2, tv_nsec = 0\<rparr> benchmarks) + 1 < MAX_FUNS_TO_BENCH
   \<and> time_us (timings (fst (END_TIMING \<lparr>tv_sec = 7, tv_nsec = 5000\<rparr> ''first''
           (START_TIMING \<lparr>tv_sec = 2, tv_nsec = 0\<rparr> benchmarks))) ! 0) = 5000005
   \<and> time_us (timings (fst (END_TIMING \<lparr>tv_sec = 9, tv_nsec = 0\<rparr> ''second''
        (fst (END_TIMING \<lparr>tv_sec = 7, tv_nsec = 5000\<rparr> ''first''
           (START_TIMING \<lparr>tv_sec = 2, tv_nsec = 0\<rparr> benchmarks))))) ! 1) = 7000000
   \<and> time_us (timings (fst (END_TIMING \<lparr>tv_sec = 7, tv_nsec = 5000\<rparr> ''first''
           (benchmark_init (START_TIMING \<lparr>tv_sec = 2, tv_nsec = 0\<rparr> benchmarks)))) ! 0) = 7000005"
proof -
  let ?b = "START_TIMING \<lparr>tv_sec = 2, tv_nsec = 0\<rparr> benchmarks"
  have h1: "length (timings ?b) = MAX_FUNS_TO_BENCH"
    by (simp add: START_TIMING_def benchmarks_def)
  have h2: "timing_index ?b + 1 < MAX_FUNS_TO_BENCH"
    by (simp add: START_TIMING_def benchmarks_def MAX_FUNS_TO_BENCH_def)
  then have h3: "timing_index ?b < MAX_FUNS_TO_BENCH" by simp
  have i: "timing_index ?b = 0" by (simp add: START_TIMING_def benchmarks_def)
  have s: "start_time ?b = 2000000" by (simp add: START_TIMING_def get_time_us_def c_div_def)
  have t: "get_time_us \<lparr>tv_sec = 7, tv_nsec = 5000\<rparr> = 7000005"
    "get_time_us \<lparr>tv_sec = 9, tv_nsec = 0\<rparr> = 9000000"
    by (simp_all add: get_time_us_def c_div_def)
  from record_timing_keeps_start_time [of "\<lparr>tv_sec = 7, tv_nsec = 5000\<rparr>" "''first''" ?b
      "\<lparr>tv_sec = 9, tv_nsec = 0\<rparr>" "''second''"] h1 h2 h3
  show ?thesis
    unfolding i s t by simp
qed

section \<open>Evaluation rules\<close>

text \<open>Rewrite rules that let the simplifier compute with the definitions on numerals.\<close>

lemma bitlen_numeral: "bitlen (numeral n) = bitlen (numeral n div 2) + 1"
  by (subst compute_bitlen) simp

lemma bitlen_one: "bitlen 1 = 1"
  by (subst compute_bitlen) simp

lemma floor_num_div: "\<lfloor>numeral a / numeral b :: rat\<rfloor> = numeral a div numeral b"
  using floor_divide_of_int_eq [of "numeral a" "numeral b", where ?'a = rat] by simp

lemma floor_one_div: "\<lfloor>1 / numeral b :: rat\<rfloor> = 1 div numeral b"
  using floor_divide_of_int_eq [of 1 "numeral b", where ?'a = rat] by simp

lemma dec_numeral:
  "dec (numeral k) = (if (numeral k :: int) < 10 then [digit_char (numeral k)]
                      else dec (numeral k div 10) @ [digit_char (numeral k mod 10)])"
  by (rule dec.simps)

lemma dec_0: "dec 0 = ''0''"
  by (simp add: dec.simps digit_char_def)

lemma dec_1: "dec 1 = ''1''"
  by (simp add: dec.simps digit_char_def)

lemma replicate_num: "replicate (numeral k) x = x # replicate (pred_numeral k) x"
  by (simp add: numeral_eq_Suc)

lemma finite_or_inf_num:
  "finite_or_inf s r =
     (if 179769313486231590772930519078902473361797697894230657273430081157732675805500963132708477322407536021120113879871393357658789768814416622492847430639474124377767893424865485276302219601246094119453082952085005768838150682342462881473913110540827237163350510684586298239947245938479716304835356329624224137216 \<le> r
      then DInf s else DFin s r)"
  by (simp add: finite_or_inf_def pow2_def)

lemmas ev_double = log2floor_def log2floor_below_def round_double_def round_to_def round_even_def
  tie_even_def finite_or_inf_num pow2_def bitlen_numeral bitlen_one floor_num_div floor_one_div
  d_lit_def d_of_int_def signed_mag_def

lemmas ev_print = replicate_num dec_numeral dec_0 dec_1 digit_char_def fmt_lld_def fmt_f_def
  pad_left_def pad_right_def zero_pad_def fixed_digits_def

lemma d_lit_table:
  "d_lit (1 / 10 ^ 9) = DFin False (4835703278458517 / 4835703278458516698824704)"
  "d_lit (1 / 10 ^ 6) = DFin False (4722366482869645 / 4722366482869645213696)"
  "d_lit (1 / 10 ^ 3) = DFin False (1152921504606847 / 1152921504606846976)"
  "d_of_int 1 = DFin False 1"
  "d_lit (10 ^ 3) = DFin False 1000"
  "d_lit (10 ^ 6) = DFin False 1000000"
  "d_lit (10 ^ 9) = DFin False 1000000000"
  "d_lit (10 ^ 12) = DFin False 1000000000000"
  by (simp_all add: ev_double)

lemma scales_nth:
  "scales ! 0 = \<lparr>suffix = ''n'', scale_divisor = DFin False (4835703278458517 / 4835703278458516698824704)\<rparr>"
  "scales ! Suc 0 = \<lparr>suffix = [CHR 0xC2, CHR 0xB5], scale_divisor = DFin False (4722366482869645 / 4722366482869645213696)\<rparr>"
  "scales ! 1 = \<lparr>suffix = [CHR 0xC2, CHR 0xB5], scale_divisor = DFin False (4722366482869645 / 4722366482869645213696)\<rparr>"
  "scales ! 2 = \<lparr>suffix = ''m'', scale_divisor = DFin False (1152921504606847 / 1152921504606846976)\<rparr>"
  "scales ! 3 = \<lparr>suffix = [], scale_divisor = DFin False 1\<rparr>"
  "scales ! 4 = \<lparr>suffix = ''k'', scale_divisor = DFin False 1000\<rparr>"
  "scales ! 5 = \<lparr>suffix = ''M'', scale_divisor = DFin False 1000000\<rparr>"
  "scales ! 6 = \<lparr>suffix = ''G'', scale_divisor = DFin False 1000000000\<rparr>"
  "scales ! 7 = \<lparr>suffix = ''T'', scale_divisor = DFin False 1000000000000\<rparr>"
  unfolding scales_def d_lit_table by simp_all

lemmas scale_idx = scale_nano_idx_def scale_micro_idx_def scale_milli_idx_def scale_unit_idx_def
  scale_kilo_idx_def scale_mega_idx_def scale_giga_idx_def scale_tera_idx_def

lemma d_lit_small:
  "d_lit 0 = DFin False 0" "d_lit 1 = DFin False 1" "d_lit 5 = DFin False 5"
  "d_lit 100 = DFin False 100" "d_of_int 20 = DFin False 20"
  by (simp_all add: ev_double)

text \<open>The loop of \<^const>\<open>get_scale\<close>: what it picks, and the loop unrolled.\<close>

lemma get_scale_loop_pick:
  "i < n \<Longrightarrow> scale_fits v i \<Longrightarrow> (\<forall>j. i < j \<and> j < n \<longrightarrow> \<not> scale_fits v j) \<Longrightarrow>
   get_scale_loop v n = scales ! i"
proof (induction n)
  case 0
  then show ?case by simp
next
  case (Suc n)
  show ?case
  proof (cases "i = n")
    case True
    with Suc.prems show ?thesis by (simp add: scale_fits_def Let_def)
  next
    case False
    with Suc.prems have "i < n" by simp
    moreover from Suc.prems False have "\<not> scale_fits v n" by simp
    moreover from Suc.prems have "\<forall>j. i < j \<and> j < n \<longrightarrow> \<not> scale_fits v j" by simp
    ultimately show ?thesis
      using Suc.IH Suc.prems(2) by (simp add: scale_fits_def Let_def)
  qed
qed

lemma get_scale_loop_none:
  "(\<forall>j<n. \<not> scale_fits v j) \<Longrightarrow> get_scale_loop v n = scales ! scale_nano_idx"
  by (induction n) (simp_all add: scale_fits_def Let_def)

lemma get_scale_unfold:
  "get_scale v =
     (if d_eq v (d_lit 0) then scales ! 0
      else if scale_fits v 7 then scales ! 7
      else if scale_fits v 6 then scales ! 6
      else if scale_fits v 5 then scales ! 5
      else if scale_fits v 4 then scales ! 4
      else if scale_fits v 3 then scales ! 3
      else if scale_fits v 2 then scales ! 2
      else if scale_fits v 1 then scales ! 1
      else scales ! 0)"
  by (simp add: get_scale_def scale_count_def scale_nano_idx_def eval_nat_numeral Let_def
      scale_fits_def del: d_le.simps)

lemmas ev_scale = get_scale_unfold scale_fits_def scales_nth d_lit_small format_scaled_def
  scaled_text_def snprintf_def STRING_LENGTH_def

section \<open>The choice of the scale\<close>

lemma scales_increasing:
  assumes "i < j" and "j < scale_count"
  shows "d_less (scale_divisor (scales ! i)) (scale_divisor (scales ! j))"
proof -
  have s: "sorted_wrt d_less (map scale_divisor scales)"
    unfolding scales_def d_lit_table by (simp add: signed_mag_def)
  have l: "length scales = scale_count"
    by (simp add: scales_def scale_count_def)
  from s assms l have "d_less (map scale_divisor scales ! i) (map scale_divisor scales ! j)"
    by (simp add: sorted_wrt_iff_nth_less)
  with assms l show ?thesis by simp
qed

lemma get_scale_examples:
  "get_scale (d_lit 0) = scales ! scale_nano_idx"
  "get_scale (d_lit (123 / 10 ^ 9)) = scales ! scale_nano_idx"
  "get_scale (d_lit 1500) = scales ! scale_kilo_idx"
  "get_scale (d_lit (15 * 10 ^ 11)) = scales ! scale_tera_idx"
  by (simp_all add: ev_scale scale_idx ev_double)

text \<open>
  Claim C6. \<^verbatim>\<open>get_scale\<close> returns the nano entry when \<^verbatim>\<open>v == 0.0\<close>. Otherwise it returns
  the entry of the highest index \<open>i\<close> whose divisor has \<^verbatim>\<open>fabs(v / divisor) >= 1.0\<close>, and
  the nano entry when no divisor has. The divisors grow with the index, so the highest
  index is the largest divisor. The four examples of the claim are evaluated: \<open>0.0\<close> and
  \<open>0.000000123\<close> give nano, \<open>1500.0\<close> gives kilo, \<open>1.5e12\<close> gives tera.
\<close>

theorem get_scale_largest_divisor:
  "(d_eq v (d_lit 0) \<longrightarrow> get_scale v = scales ! scale_nano_idx)
   \<and> (\<not> d_eq v (d_lit 0) \<and> i < scale_count \<and> scale_fits v i
        \<and> (\<forall>j. i < j \<and> j < scale_count \<longrightarrow> \<not> scale_fits v j)
       \<longrightarrow> get_scale v = scales ! i)
   \<and> (\<not> d_eq v (d_lit 0) \<and> (\<forall>j < scale_count. \<not> scale_fits v j)
       \<longrightarrow> get_scale v = scales ! scale_nano_idx)
   \<and> (\<forall>k j. k < j \<and> j < scale_count \<longrightarrow>
         d_less (scale_divisor (scales ! k)) (scale_divisor (scales ! j)))
   \<and> get_scale (d_lit 0) = scales ! scale_nano_idx
   \<and> get_scale (d_lit (123 / 10 ^ 9)) = scales ! scale_nano_idx
   \<and> get_scale (d_lit 1500) = scales ! scale_kilo_idx
   \<and> get_scale (d_lit (15 * 10 ^ 11)) = scales ! scale_tera_idx"
  using get_scale_loop_pick [of i scale_count v] get_scale_loop_none [of scale_count v]
    scales_increasing get_scale_examples
  by (simp add: get_scale_def)

theorem get_scale_largest_divisor_witness:
  "\<not> d_eq (d_lit 1500) (d_lit 0) \<and> scale_kilo_idx < scale_count
   \<and> scale_fits (d_lit 1500) scale_kilo_idx
   \<and> \<not> scale_fits (d_lit 1500) 5 \<and> \<not> scale_fits (d_lit 1500) 6
   \<and> \<not> scale_fits (d_lit 1500) 7
   \<and> get_scale (d_lit 1500) = \<lparr>suffix = ''k'', scale_divisor = d_lit 1000\<rparr>"
proof -
  have v: "d_lit 1500 = DFin False 1500" "d_lit 1000 = DFin False 1000"
    by (simp_all add: ev_double)
  have h1: "\<not> d_eq (d_lit 1500) (d_lit 0)"
    by (simp add: v d_lit_small signed_mag_def)
  have h2: "scale_kilo_idx < scale_count"
    by (simp add: scale_idx scale_count_def)
  have h3: "scale_fits (d_lit 1500) scale_kilo_idx"
    by (simp add: v scale_idx ev_scale ev_double)
  have h4: "\<forall>j. scale_kilo_idx < j \<and> j < scale_count \<longrightarrow> \<not> scale_fits (d_lit 1500) j"
  proof (intro allI impI)
    fix j assume "scale_kilo_idx < j \<and> j < scale_count"
    then have "j = 5 \<or> j = 6 \<or> j = 7" by (auto simp: scale_idx scale_count_def)
    then show "\<not> scale_fits (d_lit 1500) j"
      by (auto simp: v ev_scale ev_double)
  qed
  from get_scale_largest_divisor [of "d_lit 1500" scale_kilo_idx] h1 h2 h3 h4
  have "get_scale (d_lit 1500) = scales ! scale_kilo_idx" by blast
  moreover have "\<not> scale_fits (d_lit 1500) 5" "\<not> scale_fits (d_lit 1500) 6"
    "\<not> scale_fits (d_lit 1500) 7"
    using h4 by (simp_all add: scale_idx scale_count_def)
  ultimately show ?thesis
    using h1 h2 h3 by (simp add: scale_idx scales_nth v)
qed

section \<open>The running total\<close>












section \<open>What a conforming sort does\<close>

lemma compare_times_le: "compare_times a b \<le> 0 \<longleftrightarrow> sint (time_us b) \<le> sint (time_us a)"
  by (auto simp: compare_times_def word_sless_alt)

lemma descending_iff:
  "sorted_wrt (\<lambda>a b. compare_times a b \<le> 0) xs \<longleftrightarrow> sorted (map (\<lambda>e. - sint (time_us e)) xs)"
  by (simp add: sorted_map compare_times_le)

lemma stable_qsort_ok: "qsort_ok stable_qsort"
  by (simp add: qsort_ok_def stable_qsort_def descending_iff)

lemma flipping_qsort_ok: "qsort_ok flipping_qsort"
proof -
  have "sorted_wrt (\<lambda>a b. compare_times a b \<le> 0) (rev (sort_key (\<lambda>e. sint (time_us e)) xs))" for xs
  proof -
    have "sorted (map (\<lambda>e. sint (time_us e)) (sort_key (\<lambda>e. sint (time_us e)) xs))"
      by simp
    then have "sorted_wrt (\<lambda>a b. sint (time_us a) \<le> sint (time_us b))
                 (sort_key (\<lambda>e. sint (time_us e)) xs)"
      by (simp add: sorted_map)
    then show ?thesis
      by (simp add: sorted_wrt_rev compare_times_le)
  qed
  then show ?thesis by (simp add: qsort_ok_def flipping_qsort_def)
qed

text \<open>With pairwise different durations the descending order is unique.\<close>

lemma descending_unique:
  assumes "mset ys = mset xs"
    and "sorted_wrt (\<lambda>a b. compare_times a b \<le> 0) xs"
    and "sorted_wrt (\<lambda>a b. compare_times a b \<le> 0) ys"
    and "distinct (map time_us xs)"
  shows "ys = xs"
proof -
  let ?k = "\<lambda>e. - sint (time_us e)"
  have inj: "inj_on ?k (set xs)"
  proof (rule inj_onI)
    fix a b assume a: "a \<in> set xs" and b: "b \<in> set xs" and "?k a = ?k b"
    then have "time_us a = time_us b" by (simp add: signed_word_eqI)
    with assms(4) a b show "a = b"
      by (meson distinct_map inj_onD)
  qed
  from assms(1) have "mset (map ?k ys) = mset (map ?k xs)" by simp
  moreover from assms(2,3) have "sorted (map ?k xs)" "sorted (map ?k ys)"
    by (simp_all add: descending_iff)
  ultimately have "map ?k ys = map ?k xs"
    by (metis properties_for_sort)
  moreover from assms(1) have "set ys = set xs" by (metis set_mset_mset)
  ultimately show ?thesis
    using inj by (metis inj_on_map_eq_map sup.idem)
qed

lemma qsort_sorted_id:
  assumes "qsort_ok qs" and "sorted_wrt (\<lambda>a b. compare_times a b \<le> 0) xs"
    and "distinct (map time_us xs)"
  shows "qs xs = xs"
  using assms descending_unique [of "qs xs" xs] by (simp add: qsort_ok_def)

lemma qsort_result:
  assumes "qsort_ok qs" and "mset xs = mset ys"
    and "sorted_wrt (\<lambda>a b. compare_times a b \<le> 0) ys"
    and "distinct (map time_us ys)"
  shows "qs xs = ys"
  using assms descending_unique [of "qs xs" ys] by (simp add: qsort_ok_def)

section \<open>Properties of the rounding\<close>

lemma pow2_powi: "pow2 k = 2 powi k"
  by (simp add: pow2_def power_int_def power_inverse [symmetric] inverse_eq_divide power_one_over)

lemma pow2_pos: "0 < pow2 k"
  by (simp add: pow2_def)

lemma pow2_add: "pow2 (a + b) = pow2 a * pow2 b"
  by (simp add: pow2_powi power_int_add)

lemma pow2_mono: "a \<le> b \<Longrightarrow> pow2 a \<le> pow2 b"
  by (simp add: pow2_powi power_int_increasing)

lemma pow2_strict_mono: "a < b \<Longrightarrow> pow2 a < pow2 b"
  by (simp add: pow2_powi power_int_strict_increasing)

lemma pow2_less_cancel: "pow2 a < pow2 b \<Longrightarrow> a < b"
  using pow2_mono [of b a] by (cases "a < b") auto

lemma pow2_nat: "0 \<le> k \<Longrightarrow> pow2 k = 2 ^ nat k"
  by (simp add: pow2_def)

lemma bitlen_floor_bounds:
  fixes y :: rat
  assumes "1 \<le> y"
  shows "pow2 (bitlen \<lfloor>y\<rfloor> - 1) \<le> y \<and> y < pow2 (bitlen \<lfloor>y\<rfloor>)"
proof -
  let ?k = "\<lfloor>y\<rfloor>"
  from assms have k: "0 < ?k" by linarith
  from bitlen_bounds [OF k] have lo: "2 ^ nat (bitlen ?k - 1) \<le> ?k" and hi: "?k < 2 ^ nat (bitlen ?k)"
    by simp_all
  from k have b: "1 \<le> bitlen ?k" by (simp add: bitlen_alt_def)
  have "pow2 (bitlen ?k - 1) = of_int (2 ^ nat (bitlen ?k - 1))"
    using b by (simp add: pow2_nat)
  also have "\<dots> \<le> of_int ?k" using lo by (simp only: of_int_le_iff)
  also have "\<dots> \<le> y" by simp
  finally have 1: "pow2 (bitlen ?k - 1) \<le> y" .
  from hi have "?k + 1 \<le> 2 ^ nat (bitlen ?k)" by simp
  then have "(of_int (?k + 1) :: rat) \<le> of_int (2 ^ nat (bitlen ?k))" by (simp only: of_int_le_iff)
  moreover have "y < of_int (?k + 1)" by linarith
  ultimately have "y < of_int (2 ^ nat (bitlen ?k))" by linarith
  moreover have "pow2 (bitlen ?k) = of_int (2 ^ nat (bitlen ?k))"
    using b by (simp add: pow2_nat)
  ultimately have 2: "y < pow2 (bitlen ?k)" by simp
  from 1 2 show ?thesis ..
qed

lemma log2floor_bounds:
  assumes "0 < x"
  shows "pow2 (log2floor x) \<le> x \<and> x < pow2 (log2floor x + 1)"
proof (cases "1 \<le> x")
  case True
  with bitlen_floor_bounds [OF True] show ?thesis by (simp add: log2floor_def)
next
  case False
  define j where "j = bitlen \<lfloor>1 / x\<rfloor> - 1"
  from False assms have "1 \<le> 1 / x" by simp
  from bitlen_floor_bounds [OF this] have lo: "pow2 j \<le> 1 / x" and hi: "1 / x < pow2 (j + 1)"
    by (simp_all add: j_def)
  have inv: "pow2 (- k) = 1 / pow2 k" for k
    by (simp add: pow2_powi power_int_minus_divide)
  from lo assms have up: "x \<le> pow2 (- j)"
    using pow2_pos [of j] by (simp add: inv field_simps)
  have "- j - 1 = - (j + 1)" by simp
  then have i1: "pow2 (- j - 1) = 1 / pow2 (j + 1)"
    using inv [of "j + 1"] by (simp only:)
  from hi assms pow2_pos [of "j + 1"] have "1 / pow2 (j + 1) < x"
    by (simp add: field_simps)
  then have low: "pow2 (- j - 1) < x" by (simp only: i1)
  have two: "pow2 (- j + 1) = 2 * pow2 (- j)"
    using pow2_add [of "- j" 1] by (simp add: pow2_def)
  have lf: "log2floor x = log2floor_below x j"
    using False by (simp add: log2floor_def j_def)
  show ?thesis
  proof (cases "x = pow2 (- j)")
    case True
    then have "log2floor x = - j" unfolding lf log2floor_below_def by simp
    moreover have "pow2 (- j) \<le> x" using True by simp
    moreover have "x < pow2 (- j + 1)" unfolding two using True pow2_pos [of "- j"] by simp
    ultimately show ?thesis by simp
  next
    case ne: False
    then have "log2floor x = - j - 1" unfolding lf log2floor_below_def by simp
    moreover from up ne have "x < pow2 (- j - 1 + 1)" by simp
    ultimately show ?thesis using low by simp
  qed
qed

lemma floor_le_round_even: "\<lfloor>x\<rfloor> \<le> round_even x"
  by (simp add: round_even_def tie_even_def)

lemma round_even_le_floor: "round_even x \<le> \<lfloor>x\<rfloor> + 1"
  by (simp add: round_even_def tie_even_def)

text \<open>
  A magnitude in the normal range rounds to a finite double that differs from it by less
  than a factor 2.
\<close>

lemma round_double_bounds:
  assumes "pow2 (- 1022) \<le> m" and "m < pow2 1023"
  shows "\<exists>r. round_double s m = DFin s r \<and> m \<le> 2 * r \<and> r \<le> 2 * m"
proof -
  from assms(1) have m: "0 < m" using pow2_pos [of "- 1022"] by linarith
  define e where "e = log2floor m"
  from log2floor_bounds [OF m] have lo: "pow2 e \<le> m" and hi: "m < pow2 (e + 1)"
    by (simp_all add: e_def)
  from assms(1) hi have "pow2 (- 1022) < pow2 (e + 1)" by linarith
  then have e1: "- 1022 \<le> e" using pow2_less_cancel by fastforce
  from assms(2) lo have "pow2 e < pow2 1023" by linarith
  then have e2: "e \<le> 1022" using pow2_less_cancel by fastforce
  define q where "q = e - 52"
  define y where "y = m / pow2 q"
  have pq: "0 < pow2 q" by (rule pow2_pos)
  have "e = 52 + q" by (simp add: q_def)
  then have pe1: "pow2 e = pow2 52 * pow2 q" using pow2_add [of 52 q] by (simp only:)
  have "e + 1 = 53 + q" by (simp add: q_def)
  then have pe2: "pow2 (e + 1) = pow2 53 * pow2 q" using pow2_add [of 53 q] by (simp only:)
  note pe = pe1 pe2
  from lo hi pq have y: "pow2 52 \<le> y" "y < pow2 53"
    unfolding pe by (simp_all add: y_def field_simps)
  define n where "n = round_even y"
  have p52: "pow2 52 = of_int (2 ^ 52)" "pow2 53 = of_int (2 ^ 53)"
    by (simp_all add: pow2_def)
  from y(1) have f1: "(2 ^ 52 :: int) \<le> \<lfloor>y\<rfloor>" unfolding p52 by (simp only: le_floor_iff)
  from order_trans [OF f1 floor_le_round_even [of y]] have n1: "2 ^ 52 \<le> n"
    by (simp only: n_def)
  from y(2) have "\<lfloor>y\<rfloor> < (2 ^ 53 :: int)" unfolding p52 by (simp only: floor_less_iff)
  then have f2: "\<lfloor>y\<rfloor> + 1 \<le> (2 ^ 53 :: int)" by (rule zless_imp_add1_zle)
  from order_trans [OF round_even_le_floor [of y] f2] have n2: "n \<le> 2 ^ 53"
    by (simp only: n_def)
  define r where "r = of_int n * pow2 q"
  from n1 have "pow2 52 \<le> of_int n" unfolding p52 by (simp only: of_int_le_iff)
  with pq have "pow2 52 * pow2 q \<le> r" by (simp add: r_def)
  then have r1: "pow2 e \<le> r" by (simp only: pe)
  from n2 have "of_int n \<le> pow2 53" unfolding p52 by (simp only: of_int_le_iff)
  with pq have "r \<le> pow2 53 * pow2 q" by (simp add: r_def)
  then have r2: "r \<le> pow2 (e + 1)" by (simp only: pe)
  have two: "pow2 (e + 1) = 2 * pow2 e" using pow2_add [of e 1] by (simp add: pow2_def)
  from r2 e2 pow2_mono [of "e + 1" 1023] pow2_strict_mono [of 1023 1024]
  have fin: "\<not> pow2 1024 \<le> r" by simp
  have "round_double s m = DFin s r"
    using m e1 fin
    by (simp add: round_double_def round_to_def finite_or_inf_def e_def [symmetric] max_def
        q_def [symmetric] y_def [symmetric] n_def [symmetric] r_def [symmetric])
  moreover from hi r1 two have "m \<le> 2 * r" by linarith
  moreover from lo r2 two have "r \<le> 2 * m" by linarith
  ultimately show ?thesis by blast
qed

section \<open>The percentage\<close>

lemma stored_entry_sel:
  "time_us (stored_entry fname t) = t"
  "c_str (function_name (stored_entry fname t)) = take (MAX_FUNS_NAME_LENGTH - 1) (c_str fname)"
  by (simp_all add: stored_entry_def c_str_stored MAX_FUNS_NAME_LENGTH_def)

lemma store_of_sel:
  "total_time (store_of es tot) = tot"
  "timing_index (store_of es tot) = length es"
  "i < length es \<Longrightarrow> timings (store_of es tot) ! i = es ! i"
  "take (length es) (timings (store_of es tot)) = es"
  by (simp_all add: store_of_def nth_append)

lemma d_of_int_0: "d_of_int 0 = DFin False 0"
  by (simp add: d_of_int_def round_double_def)

lemma d_of_int_bounds:
  assumes "i \<noteq> 0" and "\<bar>i\<bar> \<le> 2 ^ 63"
  shows "\<exists>r. d_of_int i = DFin (i < 0) r \<and> 1 / 2 \<le> r \<and> r \<le> 2 ^ 64"
proof -
  let ?m = "of_int \<bar>i\<bar> :: rat"
  from assms(1) have "1 \<le> \<bar>i\<bar>" by simp
  then have one: "1 \<le> ?m" by (metis of_int_1 of_int_le_iff)
  from assms(2) have "?m \<le> of_int (2 ^ 63)" by (simp only: of_int_le_iff)
  then have top: "?m \<le> 2 ^ 63" by simp
  have "pow2 (- 1022) \<le> pow2 0" by (rule pow2_mono) simp
  with one have lo: "pow2 (- 1022) \<le> ?m" by (simp add: pow2_def)
  have "pow2 63 < pow2 1023" by (rule pow2_strict_mono) simp
  with top have hi: "?m < pow2 1023" by (simp add: pow2_def)
  from round_double_bounds [OF lo hi, of "i < 0"] obtain r
    where r: "round_double (i < 0) ?m = DFin (i < 0) r" "?m \<le> 2 * r" "r \<le> 2 * ?m"
    by blast
  from r(2) one have "1 / 2 \<le> r" by linarith
  moreover have "(2 :: rat) ^ 64 = 2 * 2 ^ 63" by simp
  with r(3) top have "r \<le> 2 ^ 64" by linarith
  ultimately show ?thesis using r(1) by (auto simp: d_of_int_def)
qed

lemma sint_64_bound: "\<bar>sint (w :: 64 word)\<bar> \<le> 2 ^ 63"
  using sint_ge [of w] sint_lt [of w] by simp

text \<open>The numerator \<^verbatim>\<open>(double)time_us * 100.0\<close> is finite, with the sign of \<^verbatim>\<open>time_us\<close>.\<close>

lemma numerator_bounds:
  assumes "t \<noteq> (0 :: 64 word)"
  shows "\<exists>r. d_mul (d_of_int (sint t)) (d_lit 100) = DFin (sint t < 0) r \<and> 25 \<le> r \<and> r \<le> 2 ^ 72"
proof -
  from assms have nz: "sint t \<noteq> 0" by (simp add: signed_eq_0_iff)
  from d_of_int_bounds [OF nz sint_64_bound] obtain r
    where r: "d_of_int (sint t) = DFin (sint t < 0) r" "1 / 2 \<le> r" "r \<le> 2 ^ 64"
    by blast
  have "pow2 (- 1022) \<le> pow2 0" by (rule pow2_mono) simp
  with r(2) have lo: "pow2 (- 1022) \<le> r * 100" by (simp add: pow2_def)
  have "pow2 71 < pow2 1023" by (rule pow2_strict_mono) simp
  moreover from r(3) have b: "r * 100 \<le> 2 ^ 64 * 128" by simp
  ultimately have hi: "r * 100 < pow2 1023" by (simp add: pow2_def)
  from round_double_bounds [OF lo hi, of "sint t < 0"] obtain r'
    where r': "round_double (sint t < 0) (r * 100) = DFin (sint t < 0) r'"
      "r * 100 \<le> 2 * r'" "r' \<le> 2 * (r * 100)"
    by blast
  from r'(2) r(2) have "25 \<le> r'" by linarith
  moreover have "(2 :: rat) ^ 72 = 2 * (2 ^ 64 * 128)" by simp
  with r'(3) b have "r' \<le> 2 ^ 72" by linarith
  ultimately show ?thesis
    using r(1) r'(1) by (simp add: d_lit_small)
qed

lemma percentage_of_zero_total:
  "percentage_of t 0 = (if t = 0 then DNaN True else DInf (sint t < 0))"
proof (cases "t = 0")
  case True
  then show ?thesis
    by (simp add: percentage_of_def d_of_int_0 d_lit_small round_double_def)
next
  case False
  from numerator_bounds [OF False] obtain r
    where "d_mul (d_of_int (sint t)) (d_lit 100) = DFin (sint t < 0) r" "25 \<le> r"
    by blast
  with False show ?thesis
    by (simp add: percentage_of_def d_of_int_0)
qed

lemma stored_entry_name:
  assumes "NUL \<notin> set s" and "length s < MAX_FUNS_NAME_LENGTH"
  shows "c_str (function_name (stored_entry s t)) = s"
proof -
  from assms(1) have "c_str s = s" by (auto simp: c_str_def takeWhile_eq_all_conv)
  with assms(2) show ?thesis by (simp add: stored_entry_sel)
qed

lemma json_row_zero_total:
  assumes "total_time b = 0"
  shows "json_row b i =
     ''  '' @ DQ @ c_str (function_name (timings b ! i)) @ DQ @ '': {'' @ DQ @ ''time_'' @
     [CHR 0xCE, CHR 0xBC] @ ''s'' @ DQ @ '': '' @ fmt_lld (time_us (timings b ! i)) @
     '', '' @ DQ @ ''percentage'' @ DQ @ '': '' @
     (if time_us (timings b ! i) = 0 then ''-nan''
      else if sint (time_us (timings b ! i)) < 0 then ''-inf'' else ''inf'') @
     ''}'' @ (if i < timing_index b - 1 then '','' else '''') @ NL"
  using assms by (simp add: json_row_def percentage_of_zero_total fmt_f_def pad_left_def)

lemma print_bench_json_empty:
  "timing_index b = 0 \<Longrightarrow> print_bench_json b = ''>>>{'' @ NL @ ''}<<<'' @ NL"
  by (simp add: print_bench_json_def)

text \<open>
  Claim C1, as the code has it. With no entry \<^verbatim>\<open>print_bench_json\<close> prints the two
  sentinel lines and nothing else: the loop body, which holds the only division, does not
  run. With entries and a total of zero, the division by the total is made without a
  guard, in floating point: the percentage of an entry of duration 0 is a NaN (printed
  \<^verbatim>\<open>-nan\<close>), of a positive duration \<open>+\<infinity>\<close> (\<^verbatim>\<open>inf\<close>), of a negative one \<open>-\<infinity>\<close> (\<^verbatim>\<open>-inf\<close>); it is
  never 0.
\<close>

theorem print_bench_json_zero_total:
  "(timing_index b = 0 \<longrightarrow> print_bench_json b = ''>>>{'' @ NL @ ''}<<<'' @ NL)
   \<and> (total_time b = 0 \<longrightarrow>
        percentage_of t (total_time b) = (if t = 0 then DNaN True else DInf (sint t < 0))
        \<and> \<not> d_eq (percentage_of t (total_time b)) (d_lit 0))
   \<and> (total_time b = 0 \<and> i < timing_index b \<longrightarrow>
        json_row b i =
          ''  '' @ DQ @ c_str (function_name (timings b ! i)) @ DQ @ '': {'' @ DQ @ ''time_'' @
          [CHR 0xCE, CHR 0xBC] @ ''s'' @ DQ @ '': '' @ fmt_lld (time_us (timings b ! i)) @
          '', '' @ DQ @ ''percentage'' @ DQ @ '': '' @
          (if time_us (timings b ! i) = 0 then ''-nan''
           else if sint (time_us (timings b ! i)) < 0 then ''-inf'' else ''inf'') @
          ''}'' @ (if i < timing_index b - 1 then '','' else '''') @ NL)"
  using print_bench_json_empty [of b] json_row_zero_total [of b i]
  by (simp add: percentage_of_zero_total d_lit_small)

theorem print_bench_json_zero_total_witness:
  "total_time (store_of [stored_entry ''idle'' 0, stored_entry ''work'' 0] 0) = 0
   \<and> 1 < timing_index (store_of [stored_entry ''idle'' 0, stored_entry ''work'' 0] 0)
   \<and> json_row (store_of [stored_entry ''idle'' 0, stored_entry ''work'' 0] 0) 1 =
        ''  '' @ DQ @ ''work'' @ DQ @ '': {'' @ DQ @ ''time_'' @ [CHR 0xCE, CHR 0xBC] @ ''s'' @ DQ @
        '': 0, '' @ DQ @ ''percentage'' @ DQ @ '': -nan}'' @ NL
   \<and> timing_index (store_of [] 0) = 0
   \<and> print_bench_json (store_of [] 0) = ''>>>{'' @ NL @ ''}<<<'' @ NL"
proof -
  let ?b = "store_of [stored_entry ''idle'' 0, stored_entry ''work'' 0] 0"
  have h: "total_time ?b = 0" "1 < timing_index ?b" "timing_index (store_of [] 0) = 0"
    by (simp_all add: store_of_sel)
  have e: "timings ?b ! 1 = stored_entry ''work'' 0"
    by (simp add: store_of_sel)
  from print_bench_json_zero_total [of ?b 0 1] print_bench_json_zero_total [of "store_of [] 0" 0 0] h
  show ?thesis
    unfolding e
    by (simp add: stored_entry_sel(1) stored_entry_name store_of_sel ev_print MAX_FUNS_NAME_LENGTH_def)
qed

theorem print_bench_json_zero_total_counterexample:
  "total_time (store_of [stored_entry ''a'' 0] 0) = 0
   \<and> timing_index (store_of [stored_entry ''a'' 0] 0) = 1
   \<and> percentage_of (time_us (timings (store_of [stored_entry ''a'' 0] 0) ! 0))
         (total_time (store_of [stored_entry ''a'' 0] 0)) = DNaN True
   \<and> \<not> d_eq (DNaN True) (d_lit 0)
   \<and> print_bench_json (store_of [stored_entry ''a'' 0] 0) =
        ''>>>{'' @ NL @
        ''  '' @ DQ @ ''a'' @ DQ @ '': {'' @ DQ @ ''time_'' @ [CHR 0xCE, CHR 0xBC] @ ''s'' @ DQ @
        '': 0, '' @ DQ @ ''percentage'' @ DQ @ '': -nan}'' @ NL @
        ''}<<<'' @ NL"
proof -
  let ?b = "store_of [stored_entry ''a'' 0] 0"
  have e: "timings ?b ! 0 = stored_entry ''a'' 0" by (simp add: store_of_sel)
  have t: "total_time ?b = 0" "timing_index ?b = 1" by (simp_all add: store_of_sel)
  have r: "json_row ?b 0 =
        ''  '' @ DQ @ ''a'' @ DQ @ '': {'' @ DQ @ ''time_'' @ [CHR 0xCE, CHR 0xBC] @ ''s'' @ DQ @
        '': 0, '' @ DQ @ ''percentage'' @ DQ @ '': -nan}'' @ NL"
    unfolding json_row_zero_total [OF t(1)] e t
    by (simp add: stored_entry_sel(1) stored_entry_name ev_print MAX_FUNS_NAME_LENGTH_def)
  have "print_bench_json ?b = ''>>>{'' @ NL @ json_row ?b 0 @ ''}<<<'' @ NL"
    by (simp add: print_bench_json_def t)
  with r e t show ?thesis
    by (simp add: stored_entry_sel(1) percentage_of_zero_total d_lit_small)
qed

section \<open>The JSON report\<close>

lemma digit_char_props:
  assumes "0 \<le> d" and "d < 10"
  shows "is_digit (digit_char d)" and "digit_value (digit_char d) = d"
    and "digit_char d \<noteq> CHR ''-''"
proof -
  from assms have "d = 0 \<or> d = 1 \<or> d = 2 \<or> d = 3 \<or> d = 4 \<or> d = 5 \<or> d = 6 \<or> d = 7 \<or> d = 8
      \<or> d = 9" by arith
  then show "is_digit (digit_char d)" "digit_value (digit_char d) = d"
    "digit_char d \<noteq> CHR ''-''"
    by (auto simp: digit_char_def is_digit_def digit_value_def)
qed

lemma dec_props:
  "0 \<le> n \<Longrightarrow> list_all is_digit (dec n) \<and> dec n \<noteq> [] \<and> digits_value (dec n) = n
                \<and> hd (dec n) \<noteq> CHR ''-''"
proof (induction n rule: dec.induct)
  case (1 n)
  show ?case
  proof (cases "n < 10")
    case True
    with "1.prems" digit_char_props [of n] show ?thesis
      by (simp add: dec.simps [of n] digits_value_def)
  next
    case False
    with "1.prems" have q: "0 \<le> n div 10" and m: "0 \<le> n mod 10" "n mod 10 < 10" by simp_all
    from "1.IH" [OF False q] digit_char_props [OF m] False show ?thesis
      by (simp add: dec.simps [of n] digits_value_def)
  qed
qed

lemma decimal_value_fmt_lld: "decimal_value (fmt_lld w) = sint w"
proof (cases "sint w < 0")
  case True
  then have "0 \<le> - sint w" by simp
  from dec_props [OF this] True show ?thesis
    by (simp add: fmt_lld_def decimal_value_def)
next
  case False
  then have "0 \<le> sint w" by simp
  from dec_props [OF this] False show ?thesis
    by (cases "dec (sint w)") (auto simp: fmt_lld_def decimal_value_def)
qed

lemma length_dec_small: "0 \<le> n \<Longrightarrow> n < 100 \<Longrightarrow> length (dec n) \<le> 2"
  by (simp add: dec.simps [of n] dec.simps [of "n div 10"])

lemma round_even_nonneg: "0 \<le> x \<Longrightarrow> 0 \<le> round_even x"
  using floor_le_round_even [of x] by (meson order_trans zero_le_floor)

lemma two_decimals_fixed:
  assumes "0 \<le> m"
  shows "two_decimals (fmt_fixed 2 (DFin s m))"
proof -
  define n where "n = round_even (m * 10 ^ 2)"
  from assms have n: "0 \<le> n" by (simp add: n_def round_even_nonneg)
  define ip where "ip = dec (n div 10 ^ 2)"
  define fp where "fp = dec (n mod 10 ^ 2)"
  from n have "0 \<le> n div 10 ^ 2" by simp
  from dec_props [OF this] have ip: "list_all is_digit ip" "ip \<noteq> []" "hd ip \<noteq> CHR ''-''"
    by (simp_all add: ip_def)
  have f0: "0 \<le> n mod 10 ^ 2" "n mod 10 ^ 2 < 100" by simp_all
  from dec_props [OF f0(1)] length_dec_small [OF f0] have fp: "list_all is_digit fp" "fp \<noteq> []"
    "length fp \<le> 2" by (simp_all add: fp_def)
  have z: "is_digit (CHR ''0'')" by (simp add: is_digit_def)
  from fp z obtain d1 d2 where pad: "zero_pad 2 fp = [d1, d2]" "is_digit d1" "is_digit d2"
    by (cases fp; cases "tl fp") (auto simp: zero_pad_def numeral_2_eq_2)
  have u: "unsigned_two_decimals (ip @ ''.'' @ [d1, d2])"
    using ip pad by (simp add: unsigned_two_decimals_def)
  have t: "fmt_fixed 2 (DFin s m) = (if s then ''-'' else '''') @ ip @ ''.'' @ [d1, d2]"
    using pad(1) by (simp add: fixed_digits_def n_def ip_def fp_def)
  show ?thesis
  proof (cases s)
    case True
    with u t show ?thesis by (simp add: two_decimals_def)
  next
    case False
    with u t ip show ?thesis by (cases ip) (auto simp: two_decimals_def)
  qed
qed

text \<open>With a total that is not zero the percentage is a finite double.\<close>

lemma percentage_of_finite:
  assumes "tot \<noteq> 0"
  shows "\<exists>s r. percentage_of t tot = DFin s r \<and> 0 \<le> r"
proof -
  from assms have nz: "sint tot \<noteq> 0" by (simp add: signed_eq_0_iff)
  from d_of_int_bounds [OF nz sint_64_bound] obtain d
    where d: "d_of_int (sint tot) = DFin (sint tot < 0) d" "1 / 2 \<le> d" "d \<le> 2 ^ 64"
    by blast
  show ?thesis
  proof (cases "t = 0")
    case True
    with d show ?thesis
      by (simp add: percentage_of_def d_of_int_0 d_lit_small round_double_def)
  next
    case False
    from numerator_bounds [OF False] obtain r
      where r: "d_mul (d_of_int (sint t)) (d_lit 100) = DFin (sint t < 0) r" "25 \<le> r" "r \<le> 2 ^ 72"
      by blast
    from d(2) have dpos: "0 < d" by simp
    have "pow2 (- 1022) \<le> pow2 (- 60)" by (rule pow2_mono) simp
    moreover have "pow2 (- 60) = 1 / 2 ^ 60" by (simp add: pow2_def)
    moreover have "1 / 2 ^ 60 \<le> r / d"
    proof -
      from d(3) have "d \<le> 25 * 2 ^ 60" by simp
      also from r(2) have "\<dots> \<le> r * 2 ^ 60" by simp
      finally show ?thesis using dpos by (simp add: field_simps)
    qed
    ultimately have lo: "pow2 (- 1022) \<le> r / d" by linarith
    have "pow2 73 < pow2 1023" by (rule pow2_strict_mono) simp
    moreover have "pow2 73 = 2 ^ 73" by (simp add: pow2_def)
    moreover have "r / d \<le> 2 ^ 73"
    proof -
      from r(3) have "r \<le> 2 ^ 73 * (1 / 2)" by simp
      also from d(2) have "\<dots> \<le> 2 ^ 73 * d" by simp
      finally show ?thesis using dpos by (simp add: field_simps)
    qed
    ultimately have hi: "r / d < pow2 1023" by linarith
    from round_double_bounds [OF lo hi, of "(sint t < 0) \<noteq> (sint tot < 0)"] obtain q
      where "round_double ((sint t < 0) \<noteq> (sint tot < 0)) (r / d)
               = DFin ((sint t < 0) \<noteq> (sint tot < 0)) q" "r / d \<le> 2 * q"
      by blast
    moreover from r(2) d(2) have "0 \<le> r / d" by simp
    ultimately show ?thesis
      using r(1) d(1,2) by (auto simp: percentage_of_def)
  qed
qed

lemma map_enumerate_nth:
  "map (\<lambda>(k, e). f k e) (enumerate 0 xs) = map (\<lambda>i. f i (xs ! i)) [0..<length xs]"
  by (rule nth_equalityI) (simp_all add: nth_enumerate_eq)

lemma json_row_line:
  "json_row b i =
     ''  '' @ json_line time_key (c_str (function_name (timings b ! i)))
       (fmt_lld (time_us (timings b ! i)))
       (fmt_f 0 2 (percentage_of (time_us (timings b ! i)) (total_time b)))
       (i = timing_index b - 1 \<or> timing_index b \<le> i) @ NL"
  by (auto simp: json_row_def json_line_def time_key_def Let_def)

lemma print_bench_json_entries:
  assumes "timing_index b \<le> length (timings b)"
  shows "print_bench_json b =
     ''>>>{'' @ NL @
     concat (map (\<lambda>(k, e). ''  '' @ json_line time_key (c_str (function_name e))
                    (fmt_lld (time_us e))
                    (fmt_f 0 2 (percentage_of (time_us e) (total_time b)))
                    (k = timing_index b - 1) @ NL)
               (enumerate 0 (take (timing_index b) (timings b)))) @
     ''}<<<'' @ NL"
proof -
  let ?n = "timing_index b"
  from assms have l: "length (take ?n (timings b)) = ?n" by simp
  have "map (json_row b) [0..<?n] =
        map (\<lambda>i. ''  '' @ json_line time_key (c_str (function_name (take ?n (timings b) ! i)))
                    (fmt_lld (time_us (take ?n (timings b) ! i)))
                    (fmt_f 0 2 (percentage_of (time_us (take ?n (timings b) ! i)) (total_time b)))
                    (i = ?n - 1) @ NL) [0..<?n]"
    by (rule map_cong) (auto simp: json_row_line)
  then have "concat (map (json_row b) [0..<?n]) =
        concat (map (\<lambda>(k, e). ''  '' @ json_line time_key (c_str (function_name e))
                    (fmt_lld (time_us e))
                    (fmt_f 0 2 (percentage_of (time_us e) (total_time b)))
                    (k = ?n - 1) @ NL)
               (enumerate 0 (take ?n (timings b))))"
    unfolding map_enumerate_nth l by (rule arg_cong)
  then show ?thesis
    unfolding print_bench_json_def by (simp only:)
qed

text \<open>
  Claim C3, as the code has it. For a store with at least one entry \<^verbatim>\<open>print_bench_json\<close>
  writes the line \<^verbatim>\<open>>>>{\<close>, then one line per entry in storage order, then the line
  \<^verbatim>\<open>}<<<\<close>. An entry's line is two spaces and \<open>"label": {"key": N, "percentage": P}\<close>, where the
  key is \<^verbatim>\<open>time_\<close> + Greek mu + \<^verbatim>\<open>s\<close> (not \<^verbatim>\<open>time_us\<close>), with a comma on every line but the last.
  \<open>N\<close> is decimal text that reads back as the entry's \<^verbatim>\<open>time_us\<close>, and \<open>P\<close> is the percentage
  printed by \<^verbatim>\<open>%.2f\<close>: text of the form \<open>[-]d...d.dd\<close> whenever the total is not zero.
\<close>

theorem print_bench_json_lines:
  assumes "0 < timing_index b" and "timing_index b \<le> length (timings b)"
  shows "print_bench_json b =
           ''>>>{'' @ NL @
           concat (map (\<lambda>(k, e). ''  '' @ json_line time_key (c_str (function_name e))
                          (fmt_lld (time_us e))
                          (fmt_f 0 2 (percentage_of (time_us e) (total_time b)))
                          (k = timing_index b - 1) @ NL)
                     (enumerate 0 (take (timing_index b) (timings b)))) @
           ''}<<<'' @ NL
       \<and> list_all (\<lambda>e. decimal_value (fmt_lld (time_us e)) = sint (time_us e))
            (take (timing_index b) (timings b))
       \<and> (total_time b \<noteq> 0 \<longrightarrow>
            list_all (\<lambda>e. two_decimals (fmt_f 0 2 (percentage_of (time_us e) (total_time b))))
              (take (timing_index b) (timings b)))"
proof -
  have "two_decimals (fmt_f 0 2 (percentage_of t (total_time b)))" if "total_time b \<noteq> 0" for t
  proof -
    from percentage_of_finite [OF that, of t] obtain s r
      where "percentage_of t (total_time b) = DFin s r" "0 \<le> r" by blast
    with two_decimals_fixed [of r s] show ?thesis
      by (simp add: fmt_f_def pad_left_def)
  qed
  with print_bench_json_entries [OF assms(2)] show ?thesis
    by (simp add: decimal_value_fmt_lld list_all_iff)
qed

lemma percentage_examples:
  "percentage_of 1000 1000 = DFin False 100"
  "percentage_of 1000 4000 = DFin False 25"
  "percentage_of 3000 4000 = DFin False 75"
  by (simp_all add: percentage_of_def ev_double)

lemma fixed_examples:
  "fmt_f 0 2 (DFin False 100) = ''100.00''"
  "fmt_f 0 2 (DFin False 25) = ''25.00''"
  "fmt_f 0 2 (DFin False 75) = ''75.00''"
  "fmt_lld 1000 = ''1000''"
  "fmt_lld 3000 = ''3000''"
  by (simp_all add: ev_print ev_double)

theorem print_bench_json_lines_witness:
  "0 < timing_index (store_of [stored_entry ''a'' 1000, stored_entry ''b'' 3000] 4000)
   \<and> timing_index (store_of [stored_entry ''a'' 1000, stored_entry ''b'' 3000] 4000)
       \<le> length (timings (store_of [stored_entry ''a'' 1000, stored_entry ''b'' 3000] 4000))
   \<and> print_bench_json (store_of [stored_entry ''a'' 1000, stored_entry ''b'' 3000] 4000) =
        ''>>>{'' @ NL @
        ''  '' @ DQ @ ''a'' @ DQ @ '': {'' @ DQ @ ''time_'' @ [CHR 0xCE, CHR 0xBC] @ ''s'' @ DQ @
          '': 1000, '' @ DQ @ ''percentage'' @ DQ @ '': 25.00},'' @ NL @
        ''  '' @ DQ @ ''b'' @ DQ @ '': {'' @ DQ @ ''time_'' @ [CHR 0xCE, CHR 0xBC] @ ''s'' @ DQ @
          '': 3000, '' @ DQ @ ''percentage'' @ DQ @ '': 75.00}'' @ NL @
        ''}<<<'' @ NL"
proof -
  let ?b = "store_of [stored_entry ''a'' 1000, stored_entry ''b'' 3000] 4000"
  have h1: "0 < timing_index ?b" by (simp add: store_of_sel)
  have h2: "timing_index ?b \<le> length (timings ?b)" by (simp add: store_of_def)
  have t: "take (timing_index ?b) (timings ?b) = [stored_entry ''a'' 1000, stored_entry ''b'' 3000]"
    using store_of_sel(4) [of "[stored_entry ''a'' 1000, stored_entry ''b'' 3000]" 4000]
    by (simp add: store_of_sel(2))
  from print_bench_json_lines [OF h1 h2] h1 h2 show ?thesis
    unfolding t
    by (simp add: store_of_sel enumerate_eq_zip json_line_def time_key_def stored_entry_sel(1)
        stored_entry_name MAX_FUNS_NAME_LENGTH_def percentage_examples fixed_examples)
qed

theorem print_bench_json_lines_counterexample:
  "0 < timing_index (store_of [stored_entry ''a'' 1000] 1000)
   \<and> print_bench_json (store_of [stored_entry ''a'' 1000] 1000) =
        ''>>>{'' @ NL @
        ''  '' @ DQ @ ''a'' @ DQ @ '': {'' @ DQ @ ''time_'' @ [CHR 0xCE, CHR 0xBC] @ ''s'' @ DQ @
          '': 1000, '' @ DQ @ ''percentage'' @ DQ @ '': 100.00}'' @ NL @
        ''}<<<'' @ NL
   \<and> print_bench_json (store_of [stored_entry ''a'' 1000] 1000) \<noteq>
        ''>>>{'' @ NL @ json_line ''time_us'' ''a'' ''1000'' ''100.00'' True @ NL @ ''}<<<'' @ NL
   \<and> print_bench_json (store_of [stored_entry ''a'' 1000] 1000) \<noteq>
        ''>>>{'' @ NL @ ''  '' @ json_line ''time_us'' ''a'' ''1000'' ''100.00'' True @ NL @
        ''}<<<'' @ NL
   \<and> \<not> sublist (DQ @ ''time_us'' @ DQ) (print_bench_json (store_of [stored_entry ''a'' 1000] 1000))"
proof -
  let ?b = "store_of [stored_entry ''a'' 1000] 1000"
  have e: "timings ?b ! 0 = stored_entry ''a'' 1000" by (simp add: store_of_sel)
  have t: "total_time ?b = 1000" "timing_index ?b = 1" by (simp_all add: store_of_sel)
  have out: "print_bench_json ?b =
        ''>>>{'' @ NL @
        ''  '' @ DQ @ ''a'' @ DQ @ '': {'' @ DQ @ ''time_'' @ [CHR 0xCE, CHR 0xBC] @ ''s'' @ DQ @
          '': 1000, '' @ DQ @ ''percentage'' @ DQ @ '': 100.00}'' @ NL @
        ''}<<<'' @ NL"
    by (simp add: print_bench_json_def json_row_def t e stored_entry_sel(1) stored_entry_name
        MAX_FUNS_NAME_LENGTH_def percentage_examples fixed_examples)
  show ?thesis
    unfolding out by (simp add: t json_line_def sublist_code)
qed

section \<open>Stores that hold given entries\<close>



lemma length_stored_name: "length (function_name (stored_entry fname t)) = MAX_FUNS_NAME_LENGTH"
  by (simp add: stored_entry_def length_strncpy)




lemma store_array_ok: "length es \<le> MAX_FUNS_TO_BENCH \<Longrightarrow>
    list_all (\<lambda>e. length (function_name e) = MAX_FUNS_NAME_LENGTH) es \<Longrightarrow>
    array_ok ((store_of es tot)\<lparr>start_time := s\<rparr>)"
  by (auto simp: array_ok_def store_of_def length_stored_name list_all_iff)







lemma get_time_us_seconds: "get_time_us \<lparr>tv_sec = n, tv_nsec = 0\<rparr> = n * 1000000"
  by (simp add: get_time_us_def c_div_def)


section \<open>The ranked report of three entries\<close>

lemmas ev_ranked = percentage_of_def filled_length_of_def seconds_of_def share_of_max_def
  get_gradient_color_def d_to_int.simps BAR_LENGTH_def INT_MIN_def INT_MAX_def scale_idx

lemma percentage_abc:
  "percentage_of 3000 6000 = DFin False 50"
  "percentage_of 2000 6000 = DFin False (4691249611844267 / 140737488355328)"
  "percentage_of 1000 6000 = DFin False (4691249611844267 / 281474976710656)"
  by (simp_all add: ev_ranked ev_double)

lemma filled_abc:
  "filled_length_of (percentage_of 3000 6000) = Some 10"
  "filled_length_of (percentage_of 2000 6000) = Some 6"
  "filled_length_of (percentage_of 1000 6000) = Some 3"
  by (simp_all add: ev_ranked ev_double)

lemma fmt_percentage_abc:
  "fmt_f 6 4 (percentage_of 3000 6000) = ''50.0000''"
  "fmt_f 6 4 (percentage_of 2000 6000) = ''33.3333''"
  "fmt_f 6 4 (percentage_of 1000 6000) = ''16.6667''"
  by (simp_all add: ev_ranked ev_double ev_print)

lemma time_text_3000: "format_scaled (seconds_of 3000) [] STRING_LENGTH ''s'' = ''  3.000 ms''"
  by (simp add: ev_ranked ev_scale ev_double ev_print)

lemma time_text_2000: "format_scaled (seconds_of 2000) [] STRING_LENGTH ''s'' = ''  2.000 ms''"
  by (simp add: ev_ranked ev_scale ev_double ev_print)

lemma time_text_1000: "format_scaled (seconds_of 1000) [] STRING_LENGTH ''s'' = ''  1.000 ms''"
  by (simp add: ev_ranked ev_scale ev_double ev_print)

lemma color_abc:
  "get_gradient_color (share_of_max 3000 3000) = BRIGHT_RED"
  "get_gradient_color (share_of_max 2000 3000) = RED"
  "get_gradient_color (share_of_max 1000 3000) = BRIGHT_YELLOW"
  by (simp_all add: ev_ranked ev_double)

lemma qsort_abc:
  assumes "qsort_ok qs"
  shows "qs [stored_entry ''a'' 1000, stored_entry ''b'' 3000, stored_entry ''c'' 2000]
           = [stored_entry ''b'' 3000, stored_entry ''c'' 2000, stored_entry ''a'' 1000]"
  by (rule qsort_result [OF assms]) (simp_all add: compare_times_le stored_entry_sel(1))

lemma ranked_row_text:
  assumes "filled_length_of (percentage_of (time_us (timings b ! i)) (total_time b)) = Some n"
    and "BAR_LENGTH - n \<le> INT_MAX"
  shows "ranked_row b m i =
           Some (table_line (get_gradient_color (share_of_max (time_us (timings b ! i)) m))
                   (c_str (function_name (timings b ! i)))
                   (format_scaled (seconds_of (time_us (timings b ! i))) [] STRING_LENGTH ''s'')
                   (percentage_of (time_us (timings b ! i)) (total_time b)) @
                 bar_line n)"
  using assms by (simp add: ranked_row_def Let_def)

lemma bar_line_text:
  "bar_line 10 = BRIGHT_CYAN @ ''['' @ concat (replicate 10 bar_glyph) @ replicate 10 (CHR '' '') @ '']'' @ RESET @ NL"
  "bar_line 6 = BRIGHT_CYAN @ ''['' @ concat (replicate 6 bar_glyph) @ replicate 14 (CHR '' '') @ '']'' @ RESET @ NL"
  "bar_line 3 = BRIGHT_CYAN @ ''['' @ concat (replicate 3 bar_glyph) @ replicate 17 (CHR '' '') @ '']'' @ RESET @ NL"
  by (simp_all add: bar_line_def BAR_LENGTH_def)

lemma table_line_abc:
  "table_line BRIGHT_RED ''b'' ''  3.000 ms'' (percentage_of 3000 6000) =
     BRIGHT_RED @ ''| b                    |     3.000 ms | 50.0000% |'' @ RESET @ NL"
  "table_line RED ''c'' ''  2.000 ms'' (percentage_of 2000 6000) =
     RED @ ''| c                    |     2.000 ms | 33.3333% |'' @ RESET @ NL"
  "table_line BRIGHT_YELLOW ''a'' ''  1.000 ms'' (percentage_of 1000 6000) =
     BRIGHT_YELLOW @ ''| a                    |     1.000 ms | 16.6667% |'' @ RESET @ NL"
  by (simp_all add: table_line_def fmt_percentage_abc pad_left_def pad_right_def replicate_num)

lemma ranked_three:
  assumes "qsort_ok qs" and "timing_index b = 3"
    and "take 3 (timings b) =
           [stored_entry ''a'' 1000, stored_entry ''b'' 3000, stored_entry ''c'' 2000]"
    and "total_time b = 6000"
  shows "print_bench_ranked qs b =
     Some (b\<lparr>timings := [stored_entry ''b'' 3000, stored_entry ''c'' 2000, stored_entry ''a'' 1000]
                            @ drop 3 (timings b)\<rparr>,
         ranked_header @
         BRIGHT_RED @ ''| b                    |     3.000 ms | 50.0000% |'' @ RESET @ NL @
         BRIGHT_CYAN @ ''['' @ concat (replicate 10 bar_glyph) @ replicate 10 (CHR '' '') @ '']'' @ RESET @ NL @
         RED @ ''| c                    |     2.000 ms | 33.3333% |'' @ RESET @ NL @
         BRIGHT_CYAN @ ''['' @ concat (replicate 6 bar_glyph) @ replicate 14 (CHR '' '') @ '']'' @ RESET @ NL @
         BRIGHT_YELLOW @ ''| a                    |     1.000 ms | 16.6667% |'' @ RESET @ NL @
         BRIGHT_CYAN @ ''['' @ concat (replicate 3 bar_glyph) @ replicate 17 (CHR '' '') @ '']'' @ RESET @ NL @
         ranked_footer)"
proof -
  define b' where "b' = b\<lparr>timings := [stored_entry ''b'' 3000, stored_entry ''c'' 2000,
                                      stored_entry ''a'' 1000] @ drop 3 (timings b)\<rparr>"
  have st: "sort_timings qs b = b'"
    by (simp add: sort_timings_def assms(2,3) qsort_abc [OF assms(1)] b'_def)
  have sel: "timing_index b' = 3" "total_time b' = 6000"
    "timings b' ! 0 = stored_entry ''b'' 3000" "timings b' ! Suc 0 = stored_entry ''c'' 2000"
    "timings b' ! 2 = stored_entry ''a'' 1000"
    by (simp_all add: b'_def assms(2,4))
  have nm: "c_str (function_name (stored_entry ''a'' t)) = ''a''"
    "c_str (function_name (stored_entry ''b'' t)) = ''b''"
    "c_str (function_name (stored_entry ''c'' t)) = ''c''" for t
    by (simp_all add: stored_entry_name MAX_FUNS_NAME_LENGTH_def)
  have r0: "ranked_row b' 3000 0 =
      Some (BRIGHT_RED @ ''| b                    |     3.000 ms | 50.0000% |'' @ RESET @ NL @
            BRIGHT_CYAN @ ''['' @ concat (replicate 10 bar_glyph) @ replicate 10 (CHR '' '') @ '']'' @ RESET @ NL)"
    by (subst ranked_row_text [where n = 10])
       (simp_all only: sel stored_entry_sel(1) nm filled_abc color_abc time_text_3000
          table_line_abc bar_line_text append_assoc, simp_all add: BAR_LENGTH_def INT_MAX_def)
  have r1: "ranked_row b' 3000 (Suc 0) =
      Some (RED @ ''| c                    |     2.000 ms | 33.3333% |'' @ RESET @ NL @
            BRIGHT_CYAN @ ''['' @ concat (replicate 6 bar_glyph) @ replicate 14 (CHR '' '') @ '']'' @ RESET @ NL)"
    by (subst ranked_row_text [where n = 6])
       (simp_all only: sel stored_entry_sel(1) nm filled_abc color_abc time_text_2000
          table_line_abc bar_line_text append_assoc, simp_all add: BAR_LENGTH_def INT_MAX_def)
  have r2: "ranked_row b' 3000 2 =
      Some (BRIGHT_YELLOW @ ''| a                    |     1.000 ms | 16.6667% |'' @ RESET @ NL @
            BRIGHT_CYAN @ ''['' @ concat (replicate 3 bar_glyph) @ replicate 17 (CHR '' '') @ '']'' @ RESET @ NL)"
    by (subst ranked_row_text [where n = 3])
       (simp_all only: sel stored_entry_sel(1) nm filled_abc color_abc time_text_1000
          table_line_abc bar_line_text append_assoc, simp_all add: BAR_LENGTH_def INT_MAX_def)
  have idx: "[0..<timing_index b'] = [0, Suc 0, 2]"
    unfolding sel by (simp add: numeral_3_eq_3 numeral_2_eq_2 upt_rec)
  have mx: "time_us (timings b' ! 0) = 3000" by (simp add: sel stored_entry_sel(1))
  have "print_bench_ranked qs b =
          (case those (map (ranked_row b' 3000) [0, Suc 0, 2]) of None \<Rightarrow> None
           | Some rows \<Rightarrow> Some (b', ranked_header @ concat rows @ ranked_footer))"
    by (simp add: print_bench_ranked_def assms(2) st Let_def idx mx)
  then show ?thesis
    unfolding b'_def [symmetric] by (simp add: r0 r1 r2)
qed

text \<open>
  Claim C2, as the code has it. For a store that holds exactly the entries \<open>a\<close>: 1000,
  \<open>b\<close>: 3000 and \<open>c\<close>: 2000 (total 6000), with any \<^verbatim>\<open>qsort\<close> that keeps C's promise,
  \<^verbatim>\<open>print_bench_ranked\<close> leaves the entries in the order \<open>b\<close>, \<open>c\<close>, \<open>a\<close> and prints their rows
  in that order. The percentages are the doubles 50, 33.333333333333336 and
  16.666666666666668, whose sum differs from 100 by \<open>2\<^sup>-\<^sup>4\<^sup>8\<close>, printed as 50.0000, 33.3333 and
  16.6667. The bar of an entry is filled in proportion to its share of the total:
  \<^verbatim>\<open>(int)(BAR_LENGTH * percentage / 100.0)\<close> glyphs, which is 10 of the 20 positions for \<open>b\<close>
  (6 for \<open>c\<close>, 3 for \<open>a\<close>), the rest being spaces.
\<close>

theorem print_bench_ranked_three:
  assumes "qsort_ok qs" and "timing_index b = 3"
    and "take 3 (timings b) =
           [stored_entry ''a'' 1000, stored_entry ''b'' 3000, stored_entry ''c'' 2000]"
    and "total_time b = 6000"
  shows "print_bench_ranked qs b =
     Some (b\<lparr>timings := [stored_entry ''b'' 3000, stored_entry ''c'' 2000, stored_entry ''a'' 1000]
                            @ drop 3 (timings b)\<rparr>,
         ranked_header @
         BRIGHT_RED @ ''| b                    |     3.000 ms | 50.0000% |'' @ RESET @ NL @
         BRIGHT_CYAN @ ''['' @ concat (replicate 10 bar_glyph) @ replicate 10 (CHR '' '') @ '']'' @ RESET @ NL @
         RED @ ''| c                    |     2.000 ms | 33.3333% |'' @ RESET @ NL @
         BRIGHT_CYAN @ ''['' @ concat (replicate 6 bar_glyph) @ replicate 14 (CHR '' '') @ '']'' @ RESET @ NL @
         BRIGHT_YELLOW @ ''| a                    |     1.000 ms | 16.6667% |'' @ RESET @ NL @
         BRIGHT_CYAN @ ''['' @ concat (replicate 3 bar_glyph) @ replicate 17 (CHR '' '') @ '']'' @ RESET @ NL @
         ranked_footer)
   \<and> map (\<lambda>e. c_str (function_name e))
         (take 3 (timings (fst (the (print_bench_ranked qs b))))) = [''b'', ''c'', ''a'']
   \<and> percentage_of 3000 6000 = DFin False 50
   \<and> percentage_of 2000 6000 = DFin False (4691249611844267 / 140737488355328)
   \<and> percentage_of 1000 6000 = DFin False (4691249611844267 / 281474976710656)
   \<and> (50 + 4691249611844267 / 140737488355328 + 4691249611844267 / 281474976710656 :: rat)
        = 100 + 1 / 2 ^ 48
   \<and> filled_length_of (percentage_of 3000 6000) = Some 10
   \<and> filled_length_of (percentage_of 2000 6000) = Some 6
   \<and> filled_length_of (percentage_of 1000 6000) = Some 3
   \<and> BAR_LENGTH = 20"
  using ranked_three [OF assms] percentage_abc filled_abc
  by (simp add: stored_entry_name MAX_FUNS_NAME_LENGTH_def BAR_LENGTH_def)

theorem print_bench_ranked_three_witness:
  "qsort_ok stable_qsort
   \<and> timing_index (store_of [stored_entry ''a'' 1000, stored_entry ''b'' 3000, stored_entry ''c'' 2000] 6000) = 3
   \<and> take 3 (timings (store_of [stored_entry ''a'' 1000, stored_entry ''b'' 3000, stored_entry ''c'' 2000] 6000))
       = [stored_entry ''a'' 1000, stored_entry ''b'' 3000, stored_entry ''c'' 2000]
   \<and> total_time (store_of [stored_entry ''a'' 1000, stored_entry ''b'' 3000, stored_entry ''c'' 2000] 6000) = 6000
   \<and> map (\<lambda>e. c_str (function_name e))
         (take 3 (timings (fst (the (print_bench_ranked stable_qsort
            (store_of [stored_entry ''a'' 1000, stored_entry ''b'' 3000, stored_entry ''c'' 2000] 6000))))))
       = [''b'', ''c'', ''a'']"
proof -
  let ?b = "store_of [stored_entry ''a'' 1000, stored_entry ''b'' 3000, stored_entry ''c'' 2000] 6000"
  have h: "timing_index ?b = 3"
    "take 3 (timings ?b) = [stored_entry ''a'' 1000, stored_entry ''b'' 3000, stored_entry ''c'' 2000]"
    "total_time ?b = 6000"
    by (simp_all add: store_of_def)
  note t = print_bench_ranked_three [OF stable_qsort_ok h]
  show ?thesis
    by (intro conjI stable_qsort_ok h t [THEN conjunct2, THEN conjunct1])
qed

theorem print_bench_ranked_three_counterexample:
  "map_option snd (print_bench_ranked stable_qsort
      (store_of [stored_entry ''a'' 1000, stored_entry ''b'' 3000, stored_entry ''c'' 2000] 6000)) =
     Some (ranked_header @
         BRIGHT_RED @ ''| b                    |     3.000 ms | 50.0000% |'' @ RESET @ NL @
         BRIGHT_CYAN @ ''['' @ concat (replicate 10 bar_glyph) @ replicate 10 (CHR '' '') @ '']'' @ RESET @ NL @
         RED @ ''| c                    |     2.000 ms | 33.3333% |'' @ RESET @ NL @
         BRIGHT_CYAN @ ''['' @ concat (replicate 6 bar_glyph) @ replicate 14 (CHR '' '') @ '']'' @ RESET @ NL @
         BRIGHT_YELLOW @ ''| a                    |     1.000 ms | 16.6667% |'' @ RESET @ NL @
         BRIGHT_CYAN @ ''['' @ concat (replicate 3 bar_glyph) @ replicate 17 (CHR '' '') @ '']'' @ RESET @ NL @
         ranked_footer)
   \<and> filled_length_of (percentage_of 3000 6000) = Some 10
   \<and> (10 :: int) \<noteq> BAR_LENGTH
   \<and> bar_line 10 \<noteq> bar_line BAR_LENGTH"
proof -
  let ?b = "store_of [stored_entry ''a'' 1000, stored_entry ''b'' 3000, stored_entry ''c'' 2000] 6000"
  have h: "timing_index ?b = 3"
    "take 3 (timings ?b) = [stored_entry ''a'' 1000, stored_entry ''b'' 3000, stored_entry ''c'' 2000]"
    "total_time ?b = 6000"
    by (simp_all add: store_of_def)
  have "bar_line 10 \<noteq> bar_line BAR_LENGTH"
    by (simp add: bar_line_def BAR_LENGTH_def replicate_num bar_glyph_def BRIGHT_CYAN_def)
  with ranked_three [OF stable_qsort_ok h] filled_abc(1) show ?thesis
    by (simp add: BAR_LENGTH_def)
qed

end
